theory Spec2Isabelle
  imports Main "HOL-Library.Signed_Division"
begin

section \<open>Errors, images, alerts and the observable events\<close>

text \<open>
  Go's \<^verbatim>\<open>error\<close> values that util.go creates, compares or passes on.  The three
  sentinels are package variables of the channels package; \<^verbatim>\<open>ErrorString s\<close> is
  \<^verbatim>\<open>errors.New(s)\<close> or \<^verbatim>\<open>fmt.Errorf\<close> without \<^verbatim>\<open>%w\<close> (its text
  is \<open>s\<close>); \<^verbatim>\<open>WrapError p e\<close> is \<^verbatim>\<open>fmt.Errorf(p + "%w", e)\<close> (its text is
  \<open>p\<close> followed by the text of \<open>e\<close>, and it unwraps to \<open>e\<close>); \<^verbatim>\<open>PathError op path errno\<close>
  is the \<^verbatim>\<open>*fs.PathError\<close> of \<^verbatim>\<open>os.Stat\<close> and \<^verbatim>\<open>os.Open\<close>.  The last four are the
  errors of the package net/url: \<^verbatim>\<open>EscapeError\<close> and \<^verbatim>\<open>InvalidHostError\<close> with the
  offending text, \<^verbatim>\<open>PortError p\<close> for \<^verbatim>\<open>fmt.Errorf("invalid port %q after host", p)\<close>, and
  \<^verbatim>\<open>URLError op url e\<close> for \<^verbatim>\<open>&url.Error{op, url, e}\<close>, which unwraps to \<open>e\<close>.
\<close>

datatype errno = ENOENT | EACCES | EPERM | EOTHER nat

datatype error =
    ErrImageNotFound
  | ErrImagesUnavailable
  | ErrImagesDone
  | ErrorString string
  | WrapError string error
  | PathError string string errno
  | EscapeError string
  | InvalidHostError string
  | PortError string
  | URLError string string error

text \<open>\<^verbatim>\<open>errors.Is(err, target)\<close>: \<open>None\<close> is the nil error; the chain of
  \<^verbatim>\<open>Unwrap\<close> is followed through \<open>WrapError\<close>.\<close>

fun errors_Is_chain :: "error \<Rightarrow> error \<Rightarrow> bool" where
  "errors_Is_chain (WrapError p inner) target =
     (WrapError p inner = target \<or> errors_Is_chain inner target)"
| "errors_Is_chain (URLError op u inner) target =
     (URLError op u inner = target \<or> errors_Is_chain inner target)"
| "errors_Is_chain e target = (e = target)"

definition errors_Is :: "error option \<Rightarrow> error \<Rightarrow> bool" where
  "errors_Is err target = (case err of None \<Rightarrow> False | Some e \<Rightarrow> errors_Is_chain e target)"

text \<open>Modelled from the spec: the \<^verbatim>\<open>Image\<close> struct of the channels package, whose
  declaration lies outside util.go; "a stored image; exposes enough to be
  embedded by a caller (e.g., a path or URL)".\<close>

record image =
  Token :: string
  ImagePath :: string
  ImageURL :: string

text \<open>\<^verbatim>\<open>types.Alert\<close>: the label set and the annotation set, both maps with unique keys.\<close>

record alert =
  Labels :: "string \<rightharpoonup> string"
  Annotations :: "string \<rightharpoonup> string"

text \<open>
  The URL of the package net/url, with its user information (whose fields the Go library
  keeps private), and the values that \<^verbatim>\<open>sendHTTPRequest\<close> handles: its configuration,
  the request it builds and the response it receives.  Of a response the function reads
  the status, the body through \<^verbatim>\<open>io.ReadAll\<close>, which yields the bytes or an error, and
  the outcome of closing the body.  A header maps a key to a list of values.
\<close>

record Userinfo =
  ui_username :: string
  ui_password :: string
  ui_passwordSet :: bool

record URL =
  Scheme :: string
  Opaque :: string
  User :: "Userinfo option"
  Host :: string
  Path :: string
  RawPath :: string
  OmitHost :: bool
  ForceQuery :: bool
  RawQuery :: string
  Fragment :: string
  RawFragment :: string

record httpCfg =
  body :: string
  user :: string
  password :: string

record Request =
  Method :: string
  URL :: URL
  Header :: "(string \<times> string list) list"
  Body :: "string option"

record Response =
  StatusCode :: int
  Status :: string
  RespBody :: "error + string"
  BodyClose :: "error option"

text \<open>The structured logger: a logger value is its list of context pairs, \<^verbatim>\<open>New\<close>
  extends it, and every log call is an event carrying the logger, the level, the message
  and the key/value arguments.  A logged value is a string, an error, or the text of an
  error (the result of its \<^verbatim>\<open>Error\<close> method).\<close>

type_synonym logger = "(string \<times> string) list"

definition logger_New :: "logger \<Rightarrow> string \<Rightarrow> string \<Rightarrow> logger" where
  "logger_New l k v = l @ [(k, v)]"

datatype level = LvlDebug | LvlWarn | LvlError

datatype logval = S string | E error | ErrText error

datatype event =
    EvGetImage string "image option \<times> error option"
  | EvForEach nat image "error option"
  | EvLog logger level string "(string \<times> logval) list"
  | EvDo Request
  | EvClose "error option"

text \<open>
  The two collaborators of the iteration.  Both are calls into foreign code that may read
  and change the world \<open>'w\<close> (a database, the variables a closure captured), so each takes
  the world and returns the new one.  \<^verbatim>\<open>GetImage(ctx, token)\<close> returns an image pointer
  and an error, either of which may be nil; the bounded context only decides which error
  the store returns.
\<close>

type_synonym 'w ImageStore = "string \<Rightarrow> 'w \<Rightarrow> (image option \<times> error option) \<times> 'w"

type_synonym 'w forEachImageFunc = "nat \<Rightarrow> image \<Rightarrow> 'w \<Rightarrow> error option \<times> 'w"

section \<open>Image resolution and the iteration\<close>

text \<open>\<^verbatim>\<open>getTokenFromAnnotations\<close>; the reserved key \<^verbatim>\<open>models.ImageTokenAnnotation\<close>
  is a constant of the package models and is the parameter \<open>key\<close>.\<close>

definition getTokenFromAnnotations :: "string \<Rightarrow> (string \<rightharpoonup> string) \<Rightarrow> string" where
  "getTokenFromAnnotations key annotations =
     (case annotations key of Some v \<Rightarrow> v | None \<Rightarrow> '''')"

definition getImage ::
  "string \<Rightarrow> logger \<Rightarrow> 'w ImageStore \<Rightarrow> alert \<Rightarrow> 'w \<Rightarrow>
     (image option \<times> error option) \<times> event list \<times> 'w" where
  "getImage key l imageStore a w =
     (let token = getTokenFromAnnotations key (Annotations a) in
      if token = '''' then ((None, None), [], w)
      else
        (case imageStore token w of
          ((img, err), w1) \<Rightarrow>
            if errors_Is err ErrImageNotFound \<or> errors_Is err ErrImagesUnavailable
            then ((None, None), [EvGetImage token (img, err)], w1)
            else
              (case err of
                Some e \<Rightarrow>
                  ((None, Some e),
                   [EvGetImage token (img, err),
                    EvLog l LvlWarn ''failed to get image with token''
                      [(''token'', S token), (''error'', E e)]],
                   w1)
              | None \<Rightarrow> ((img, None), [EvGetImage token (img, err)], w1))))"

text \<open>One pass through the body of the \<^verbatim>\<open>for\<close> loop of \<^verbatim>\<open>withStoredImages\<close>:
  it either falls through to the next alert or returns from the function.
  \<^verbatim>\<open>alert.String()\<close> belongs to the alertmanager library and is the parameter
  \<open>alertString\<close>.\<close>

datatype control = Continue | Return "error option"

definition withStoredImages_body ::
  "string \<Rightarrow> (alert \<Rightarrow> string) \<Rightarrow> logger \<Rightarrow> 'w ImageStore \<Rightarrow> 'w forEachImageFunc \<Rightarrow>
     nat \<Rightarrow> alert \<Rightarrow> 'w \<Rightarrow> control \<times> event list \<times> 'w" where
  "withStoredImages_body key alertString l imageStore forEachFunc index a w =
     (let lg = logger_New l ''alert'' (alertString a) in
      case getImage key lg imageStore a w of
        ((img, Some e), evs, w1) \<Rightarrow> (Return (Some e), evs, w1)
      | ((None, None), evs, w1) \<Rightarrow> (Continue, evs, w1)
      | ((Some im, None), evs, w1) \<Rightarrow>
          (case forEachFunc index im w1 of
            (None, w2) \<Rightarrow> (Continue, evs @ [EvForEach index im None], w2)
          | (Some e, w2) \<Rightarrow>
              if errors_Is (Some e) ErrImagesDone
              then (Return None, evs @ [EvForEach index im (Some e)], w2)
              else (Return (Some e),
                    evs @ [EvForEach index im (Some e),
                           EvLog lg LvlError ''Failed to attach image to notification''
                             [(''error'', E e)]],
                    w2)))"

text \<open>The loop, from position \<open>index\<close> on.  The trace pairs every event with the index
  of the alert whose pass produced it.\<close>

fun withStoredImages_from ::
  "string \<Rightarrow> (alert \<Rightarrow> string) \<Rightarrow> logger \<Rightarrow> 'w ImageStore \<Rightarrow> 'w forEachImageFunc \<Rightarrow>
     nat \<Rightarrow> alert list \<Rightarrow> 'w \<Rightarrow> error option \<times> (nat \<times> event) list \<times> 'w" where
  "withStoredImages_from key alertString l imageStore forEachFunc index [] w = (None, [], w)"
| "withStoredImages_from key alertString l imageStore forEachFunc index (a # alerts) w =
     (case withStoredImages_body key alertString l imageStore forEachFunc index a w of
       (Return r, evs, w1) \<Rightarrow> (r, map (Pair index) evs, w1)
     | (Continue, evs, w1) \<Rightarrow>
         (case withStoredImages_from key alertString l imageStore forEachFunc (Suc index) alerts w1 of
           (r, tr, w2) \<Rightarrow> (r, map (Pair index) evs @ tr, w2)))"

definition withStoredImages ::
  "string \<Rightarrow> (alert \<Rightarrow> string) \<Rightarrow> logger \<Rightarrow> 'w ImageStore \<Rightarrow> 'w forEachImageFunc \<Rightarrow>
     alert list \<Rightarrow> 'w \<Rightarrow> error option \<times> (nat \<times> event) list \<times> 'w" where
  "withStoredImages key alertString l imageStore forEachFunc alerts w =
     withStoredImages_from key alertString l imageStore forEachFunc 0 alerts w"

text \<open>Reading a trace: the store queries and the visitor invocations it holds.\<close>

fun isGetImage :: "event \<Rightarrow> bool" where
  "isGetImage (EvGetImage t r) = True"
| "isGetImage _ = False"

fun isForEach :: "event \<Rightarrow> bool" where
  "isForEach (EvForEach i im r) = True"
| "isForEach _ = False"

definition queries :: "(nat \<times> event) list \<Rightarrow> (nat \<times> event) list" where
  "queries tr = filter (\<lambda>p. isGetImage (snd p)) tr"

definition visits :: "(nat \<times> event) list \<Rightarrow> (nat \<times> event) list" where
  "visits tr = filter (\<lambda>p. isForEach (snd p)) tr"


subsection \<open>Sample inputs\<close>

text \<open>A store that knows every token but three, and a visitor that collects the images
  it is handed and signals \<^verbatim>\<open>ErrImagesDone\<close> once it holds \<open>n\<close> of them.\<close>

definition sample_key :: string where
  "sample_key = ''__alertImageToken__''"

definition sample_alert :: "string option \<Rightarrow> alert" where
  "sample_alert t =
     \<lparr>Labels = Map.empty,
      Annotations = (case t of None \<Rightarrow> Map.empty | Some v \<Rightarrow> [sample_key \<mapsto> v])\<rparr>"

definition sample_image :: "string \<Rightarrow> image" where
  "sample_image t = \<lparr>Token = t, Path = ''/img/'' @ t, URL = ''''\<rparr>"

definition sample_store :: "image list ImageStore" where
  "sample_store token w =
     (if token = ''gone'' then ((None, Some ErrImageNotFound), w)
      else if token = ''off'' then ((None, Some ErrImagesUnavailable), w)
      else if token = ''broken'' then ((None, Some (ErrorString ''connection refused'')), w)
      else ((Some (sample_image token), None), w))"

definition sample_firstN :: "nat \<Rightarrow> image list forEachImageFunc" where
  "sample_firstN n index im w =
     (if n \<le> Suc (length w) then (Some ErrImagesDone, w @ [im]) else (None, w @ [im]))"

definition sample_alertString :: "alert \<Rightarrow> string" where
  "sample_alertString a = ''alert''"

definition sample_alerts :: "alert list" where
  "sample_alerts =
     [sample_alert None, sample_alert (Some ''a''), sample_alert (Some ''gone''),
      sample_alert (Some ''b''), sample_alert (Some ''broken''), sample_alert (Some ''c'')]"

abbreviation sample_run ::
  "nat \<Rightarrow> alert list \<Rightarrow> error option \<times> (nat \<times> event) list \<times> image list" where
  "sample_run n alerts \<equiv>
     withStoredImages sample_key sample_alertString [] sample_store (sample_firstN n) alerts []"

section \<open>Cleaning and joining slash-separated paths\<close>

text \<open>
  \<^verbatim>\<open>path.Clean\<close> of the Go library, which \<^verbatim>\<open>joinUrlPath\<close> reaches through
  \<^verbatim>\<open>path.Join\<close> and \<^verbatim>\<open>openImage\<close> through \<^verbatim>\<open>filepath.Clean\<close> (the same
  algorithm on a system whose separator is the slash).  The library writes into a buffer
  \<open>out\<close> with write index \<open>w\<close>; here \<open>out\<close> is the list of the bytes written so far, so
  \<open>w\<close> is its length.  \<open>dotdot\<close> is the index the output may not be cut back beyond.
\<close>

text \<open>The backtracking of a \<^verbatim>\<open>..\<close> element, after the first \<^verbatim>\<open>out.w--\<close>:
  \<^verbatim>\<open>for out.w > dotdot && out.index(out.w) != '/' { out.w-- }\<close>.\<close>

fun backtrack :: "string \<Rightarrow> nat \<Rightarrow> nat \<Rightarrow> nat" where
  "backtrack out dotdot 0 = 0"
| "backtrack out dotdot (Suc w) =
     (if dotdot < Suc w \<and> out ! Suc w \<noteq> CHR ''/'' then backtrack out dotdot w else Suc w)"

function clean_loop :: "bool \<Rightarrow> string \<Rightarrow> nat \<Rightarrow> string \<Rightarrow> string" where
  "clean_loop rooted out dotdot [] = out"
| "clean_loop rooted out dotdot (c # cs) =
     (if c = CHR ''/'' then clean_loop rooted out dotdot cs
      else if c = CHR ''.'' \<and> (cs = [] \<or> hd cs = CHR ''/'') then clean_loop rooted out dotdot cs
      else if c = CHR ''.'' \<and> hd cs = CHR ''.'' \<and> (tl cs = [] \<or> hd (tl cs) = CHR ''/'') then
        (if dotdot < length out
         then clean_loop rooted (take (backtrack out dotdot (length out - 1)) out) dotdot (tl cs)
         else if \<not> rooted
         then clean_loop rooted ((if 0 < length out then out @ ''/'' else out) @ ''..'')
                (length ((if 0 < length out then out @ ''/'' else out) @ ''..'')) (tl cs)
         else clean_loop rooted out dotdot (tl cs))
      else
        clean_loop rooted
          ((if rooted \<and> length out \<noteq> 1 \<or> \<not> rooted \<and> length out \<noteq> 0 then out @ ''/'' else out)
             @ takeWhile (\<lambda>x. x \<noteq> CHR ''/'') (c # cs))
          dotdot (dropWhile (\<lambda>x. x \<noteq> CHR ''/'') (c # cs)))"
  by pat_completeness auto
termination
  by (relation "measure (\<lambda>(rooted, out, dotdot, rest). length rest)")
     (auto simp: less_Suc_eq_le length_dropWhile_le intro: le_trans [OF length_dropWhile_le])

definition path_Clean :: "string \<Rightarrow> string" where
  "path_Clean path =
     (if path = '''' then ''.''
      else
        (let rooted = (hd path = CHR ''/'');
             out = (if rooted then clean_loop True ''/'' 1 (tl path)
                    else clean_loop False '''' 0 path)
         in if out = '''' then ''.'' else out))"

text \<open>\<^verbatim>\<open>path.Join\<close>: the non-empty prefix property of the buffer decides whether a
  separator is written before an element.\<close>

definition join_step :: "string \<Rightarrow> string \<Rightarrow> string" where
  "join_step buf e =
     (if 0 < length buf \<or> e \<noteq> ''''
      then (if 0 < length buf then buf @ ''/'' else buf) @ e
      else buf)"

definition path_Join :: "string list \<Rightarrow> string" where
  "path_Join elem =
     (if sum_list (map length elem) = 0 then ''''
      else path_Clean (foldl join_step '''' elem))"

text \<open>Two separators in a row.\<close>

fun doubleSlash :: "string \<Rightarrow> bool" where
  "doubleSlash (a # b # cs) = (a = CHR ''/'' \<and> b = CHR ''/'' \<or> doubleSlash (b # cs))"
| "doubleSlash cs = False"

text \<open>The invariant of the loop of \<^verbatim>\<open>path.Clean\<close>: the output holds no two
  separators in a row, \<open>dotdot\<close> lies within it, and it ends in a separator only when it
  is the root alone.\<close>

definition clean_inv :: "bool \<Rightarrow> string \<Rightarrow> nat \<Rightarrow> bool" where
  "clean_inv rooted out dotdot \<longleftrightarrow>
     \<not> doubleSlash out \<and> dotdot \<le> length out \<and>
     (rooted \<longrightarrow> out \<noteq> [] \<and> dotdot = 1) \<and>
     (\<not> rooted \<longrightarrow> dotdot = 0 \<or> out ! (dotdot - 1) \<noteq> CHR ''/'') \<and>
     (out \<noteq> [] \<and> last out = CHR ''/'' \<longrightarrow> rooted \<and> length out = 1)"

section \<open>Opening a stored image\<close>

text \<open>
  \<^verbatim>\<open>os.IsNotExist\<close> and \<^verbatim>\<open>os.IsPermission\<close> look through a \<^verbatim>\<open>*PathError\<close> at the
  error number below it; no other error of this model is a file-system error.
\<close>

definition os_IsNotExist :: "error option \<Rightarrow> bool" where
  "os_IsNotExist err = (case err of Some (PathError op p e) \<Rightarrow> e = ENOENT | _ \<Rightarrow> False)"

definition os_IsPermission :: "error option \<Rightarrow> bool" where
  "os_IsPermission err =
     (case err of Some (PathError op p e) \<Rightarrow> e = EACCES \<or> e = EPERM | _ \<Rightarrow> False)"

text \<open>
  \<^verbatim>\<open>openImage\<close>.  The file system is the world \<open>'w\<close>; \<^verbatim>\<open>os.Stat\<close> (of which only the
  error is used) and \<^verbatim>\<open>os.Open\<close> are the parameters \<open>stat\<close> and \<open>opn\<close>, the latter
  giving either an error or a handle \<open>'h\<close>.  \<^verbatim>\<open>filepath.Clean\<close> is \<open>path_Clean\<close>.
\<close>

definition openImage ::
  "(string \<Rightarrow> 'w \<Rightarrow> error option \<times> 'w) \<Rightarrow> (string \<Rightarrow> 'w \<Rightarrow> (error + 'h) \<times> 'w) \<Rightarrow>
     string \<Rightarrow> 'w \<Rightarrow> (error + 'h) \<times> 'w" where
  "openImage stat opn path w =
     (let fp = path_Clean path in
      case stat fp w of
        (err, w1) \<Rightarrow>
          if os_IsNotExist err \<or> os_IsPermission err then (Inl ErrImageNotFound, w1)
          else
            (case opn fp w1 of
              (Inl e, w2) \<Rightarrow> (Inl e, w2)
            | (Inr f, w2) \<Rightarrow> (Inr f, w2)))"

text \<open>A sample file system: one readable image, one file in a directory that may not be
  searched, one file that exists but cannot be opened for want of descriptors (error
  number 24), and nothing else.  The world counts the system calls made.\<close>

definition sample_stat :: "string \<Rightarrow> nat \<Rightarrow> error option \<times> nat" where
  "sample_stat p w =
     (if p = ''/data/img.png'' \<or> p = ''/data/busy.png'' then (None, Suc w)
      else if p = ''/root/img.png'' then (Some (PathError ''stat'' p EACCES), Suc w)
      else (Some (PathError ''stat'' p ENOENT), Suc w))"

definition sample_open :: "string \<Rightarrow> nat \<Rightarrow> (error + string) \<times> nat" where
  "sample_open p w =
     (if p = ''/data/img.png'' then (Inr p, Suc w)
      else if p = ''/data/busy.png'' then (Inl (PathError ''open'' p (EOTHER 24)), Suc w)
      else if p = ''/root/img.png'' then (Inl (PathError ''open'' p EACCES), Suc w)
      else (Inl (PathError ''open'' p ENOENT), Suc w))"

section \<open>The receiver validation error\<close>

text \<open>
  \<^verbatim>\<open>fmt.Sprintf\<close> with the verb \<^verbatim>\<open>%q\<close> on a string is \<^verbatim>\<open>strconv.Quote\<close> of the Go
  library: the string between double quotes, with the double quote and the backslash
  escaped by a backslash, printable runes copied, and every other byte or rune written as
  an escape sequence.  Strings are byte strings; a rune is a natural number.  The tables
  of the Unicode package that decide which runes above 255 are printable are the
  parameter \<open>isPrintTable\<close>.
\<close>

definition dquote :: char where
  "dquote = CHR 0x22"

definition backslash :: char where
  "backslash = CHR 0x5C"

definition RuneError :: nat where
  "RuneError = 0xFFFD"

definition lowerhex :: "nat \<Rightarrow> char" where
  "lowerhex n = ''0123456789abcdef'' ! (n mod 16)"

text \<open>\<^verbatim>\<open>utf8.DecodeRuneInString\<close> on a non-empty string: the rune and its width.\<close>

definition DecodeRuneInString :: "string \<Rightarrow> nat \<times> nat" where
  "DecodeRuneInString s =
     (let s0 = (of_char (s ! 0) :: nat) in
      if s0 < 0x80 then (s0, 1)
      else if s0 < 0xC2 \<or> 0xF4 < s0 then (RuneError, 1)
      else
        (let sz = (if s0 < 0xE0 then 2 else if s0 < 0xF0 then 3 else 4 :: nat);
             lo = (if s0 = 0xE0 then 0xA0 else if s0 = 0xF0 then 0x90 else 0x80 :: nat);
             hi = (if s0 = 0xED then 0x9F else if s0 = 0xF4 then 0x8F else 0xBF :: nat)
         in if length s < sz then (RuneError, 1)
            else
              (let s1 = (of_char (s ! 1) :: nat) in
               if s1 < lo \<or> hi < s1 then (RuneError, 1)
               else if sz \<le> 2 then ((s0 mod 0x20) * 0x40 + s1 mod 0x40, 2)
               else
                 (let s2 = (of_char (s ! 2) :: nat) in
                  if s2 < 0x80 \<or> 0xBF < s2 then (RuneError, 1)
                  else if sz \<le> 3
                  then ((s0 mod 0x10) * 0x1000 + (s1 mod 0x40) * 0x40 + s2 mod 0x40, 3)
                  else
                    (let s3 = (of_char (s ! 3) :: nat) in
                     if s3 < 0x80 \<or> 0xBF < s3 then (RuneError, 1)
                     else ((s0 mod 0x08) * 0x40000 + (s1 mod 0x40) * 0x1000
                             + (s2 mod 0x40) * 0x40 + s3 mod 0x40, 4))))))"

text \<open>\<^verbatim>\<open>utf8.AppendRune\<close>: the encoding of a rune.\<close>

definition AppendRune :: "nat \<Rightarrow> string" where
  "AppendRune r =
     (if r \<le> 0x7F then [char_of r]
      else if r \<le> 0x7FF then [char_of (0xC0 + r div 0x40), char_of (0x80 + r mod 0x40)]
      else if 0x10FFFF < r \<or> (0xD800 \<le> r \<and> r \<le> 0xDFFF)
      then [char_of (0xEF :: nat), char_of (0xBF :: nat), char_of (0xBD :: nat)]
      else if r \<le> 0xFFFF
      then [char_of (0xE0 + r div 0x1000), char_of (0x80 + (r div 0x40) mod 0x40),
            char_of (0x80 + r mod 0x40)]
      else [char_of (0xF0 + r div 0x40000), char_of (0x80 + (r div 0x1000) mod 0x40),
            char_of (0x80 + (r div 0x40) mod 0x40), char_of (0x80 + r mod 0x40)])"

text \<open>\<^verbatim>\<open>strconv.IsPrint\<close>: the Latin-1 range is decided in the code, the rest by the
  tables.\<close>

definition IsPrint :: "(nat \<Rightarrow> bool) \<Rightarrow> nat \<Rightarrow> bool" where
  "IsPrint isPrintTable r =
     (if r \<le> 0xFF
      then (if 0x20 \<le> r \<and> r \<le> 0x7E then True
            else if 0xA1 \<le> r \<and> r \<le> 0xFF then r \<noteq> 0xAD
            else False)
      else isPrintTable r)"

definition ValidRune :: "nat \<Rightarrow> bool" where
  "ValidRune r = (r < 0xD800 \<or> (0xDFFF < r \<and> r \<le> 0x10FFFF))"

text \<open>\<^verbatim>\<open>appendEscapedRune\<close> with the double quote as the quote character and neither
  \<^verbatim>\<open>ASCIIonly\<close> nor \<^verbatim>\<open>graphicOnly\<close>.\<close>

definition appendEscapedRune :: "(nat \<Rightarrow> bool) \<Rightarrow> nat \<Rightarrow> string" where
  "appendEscapedRune isPrintTable r =
     (if r = of_char dquote \<or> r = of_char backslash then [backslash, char_of r]
      else if IsPrint isPrintTable r then AppendRune r
      else if r = 7 then [backslash, CHR ''a'']
      else if r = 8 then [backslash, CHR ''b'']
      else if r = 12 then [backslash, CHR ''f'']
      else if r = 10 then [backslash, CHR ''n'']
      else if r = 13 then [backslash, CHR ''r'']
      else if r = 9 then [backslash, CHR ''t'']
      else if r = 11 then [backslash, CHR ''v'']
      else if r < 0x20 \<or> r = 0x7F
      then [backslash, CHR ''x'', lowerhex (r div 16), lowerhex r]
      else
        (let r' = (if \<not> ValidRune r then RuneError else r) in
         if \<not> ValidRune r \<or> r < 0x10000
         then [backslash, CHR ''u'', lowerhex (r' div 0x1000), lowerhex (r' div 0x100),
               lowerhex (r' div 0x10), lowerhex r']
         else [backslash, CHR ''U'', lowerhex (r div 0x10000000), lowerhex (r div 0x1000000),
               lowerhex (r div 0x100000), lowerhex (r div 0x10000), lowerhex (r div 0x1000),
               lowerhex (r div 0x100), lowerhex (r div 0x10), lowerhex r]))"

text \<open>The loop of \<^verbatim>\<open>appendQuotedWith\<close> over the bytes of the string.\<close>

function quote_loop :: "(nat \<Rightarrow> bool) \<Rightarrow> string \<Rightarrow> string" where
  "quote_loop isPrintTable [] = []"
| "quote_loop isPrintTable (c # cs) =
     (let (r, width) =
            (if (of_char c :: nat) \<ge> 0x80 then DecodeRuneInString (c # cs) else (of_char c, 1))
      in if width = 1 \<and> r = RuneError
         then [backslash, CHR ''x'', lowerhex (of_char c div 16), lowerhex (of_char c)]
                @ quote_loop isPrintTable cs
         else appendEscapedRune isPrintTable r @ quote_loop isPrintTable (drop (width - 1) cs))"
  by pat_completeness auto
termination
  by (relation "measure (\<lambda>(t, s). length s)") auto

definition strconv_Quote :: "(nat \<Rightarrow> bool) \<Rightarrow> string \<Rightarrow> string" where
  "strconv_Quote isPrintTable s = [dquote] @ quote_loop isPrintTable s @ [dquote]"

text \<open>Modelled from the spec: \<^verbatim>\<open>channels.NotificationChannelConfig\<close>, declared in the
  channels package; the error reads the name and the type of the receiver from it.\<close>


record NotificationChannelConfig =
  Name :: string
  Type :: string

record receiverInitError =
  Reason :: string
  Err :: "error option"
  Cfg :: NotificationChannelConfig

text \<open>\<^verbatim>\<open>receiverInitError.Error\<close>.  The text of the cause is the result of the
  \<^verbatim>\<open>Error\<close> method of whatever error value it is, the parameter \<open>errText\<close>.\<close>

definition receiverInitError_Error ::
  "(nat \<Rightarrow> bool) \<Rightarrow> (error \<Rightarrow> string) \<Rightarrow> receiverInitError \<Rightarrow> string" where
  "receiverInitError_Error isPrintTable errText e =
     (let name = (if Name (Cfg e) \<noteq> '''' then strconv_Quote isPrintTable (Name (Cfg e)) @ '' ''
                  else '''');
          s = ''failed to validate receiver '' @ name @ ''of type ''
                @ strconv_Quote isPrintTable (Type (Cfg e)) @ '': '' @ Reason e
      in case Err e of
           Some err \<Rightarrow> s @ '': '' @ errText err
         | None \<Rightarrow> s)"

definition receiverInitError_Unwrap :: "receiverInitError \<Rightarrow> error option" where
  "receiverInitError_Unwrap e = Err e"

text \<open>A string that \<^verbatim>\<open>%q\<close> leaves as it is between the quotes: printable ASCII
  without the double quote and the backslash.\<close>

definition plain :: "string \<Rightarrow> bool" where
  "plain s = list_all (\<lambda>c. 0x20 \<le> (of_char c :: nat) \<and> (of_char c :: nat) \<le> 0x7E \<and>
                            c \<noteq> dquote \<and> c \<noteq> backslash) s"

text \<open>Sample parameters: tables that hold no printable rune above 255, and causes whose
  text is their message.\<close>

definition sample_table :: "nat \<Rightarrow> bool" where
  "sample_table r = False"

fun sample_errText :: "error \<Rightarrow> string" where
  "sample_errText (ErrorString s) = s"
| "sample_errText (WrapError p e) = p @ sample_errText e"
| "sample_errText e = ''error''"

section \<open>URLs\<close>

text \<open>
  The part of the package net/url of the Go library that \<^verbatim>\<open>joinUrlPath\<close> and
  \<^verbatim>\<open>sendHTTPRequest\<close> run: \<^verbatim>\<open>url.Parse\<close> and \<^verbatim>\<open>(*URL).String\<close>, with the functions
  they call.  Strings are byte strings.
\<close>

definition emptyURL :: URL where
  "emptyURL =
     \<lparr>Scheme = '''', Opaque = '''', User = None, Host = '''', Path = '''', RawPath = '''',
      OmitHost = False, ForceQuery = False, RawQuery = '''', Fragment = '''',
      RawFragment = ''''\<rparr>"

subsection \<open>String helpers\<close>

definition isLower :: "char \<Rightarrow> bool" where
  "isLower c = (of_char (CHR ''a'') \<le> (of_char c :: nat) \<and> (of_char c :: nat) \<le> of_char (CHR ''z''))"

definition isUpper :: "char \<Rightarrow> bool" where
  "isUpper c = (of_char (CHR ''A'') \<le> (of_char c :: nat) \<and> (of_char c :: nat) \<le> of_char (CHR ''Z''))"

definition isDigit :: "char \<Rightarrow> bool" where
  "isDigit c = (of_char (CHR ''0'') \<le> (of_char c :: nat) \<and> (of_char c :: nat) \<le> of_char (CHR ''9''))"

text \<open>\<^verbatim>\<open>strings.ToLower\<close> on a string of ASCII letters, digits and signs.\<close>

definition toLower :: "string \<Rightarrow> string" where
  "toLower s = map (\<lambda>c. if isUpper c then char_of ((of_char c :: nat) + 32) else c) s"

text \<open>\<^verbatim>\<open>strings.Cut(s, sep)\<close> for a separator of one byte.\<close>

definition Cut :: "string \<Rightarrow> char \<Rightarrow> string \<times> string \<times> bool" where
  "Cut s sep =
     (if sep \<in> set s
      then (takeWhile (\<lambda>c. c \<noteq> sep) s, tl (dropWhile (\<lambda>c. c \<noteq> sep) s), True)
      else (s, '''', False))"

text \<open>\<^verbatim>\<open>strings.LastIndex(s, sep)\<close> for a separator of one byte; \<open>None\<close> is \<open>-1\<close>.\<close>

definition LastIndex :: "string \<Rightarrow> char \<Rightarrow> nat option" where
  "LastIndex s sep =
     (if sep \<in> set s then Some (length s - 1 - length (takeWhile (\<lambda>c. c \<noteq> sep) (rev s)))
      else None)"

text \<open>\<^verbatim>\<open>strings.Index(s, sub)\<close>.\<close>

fun Index_from :: "nat \<Rightarrow> string \<Rightarrow> string \<Rightarrow> nat option" where
  "Index_from i sub [] = (if sub = [] then Some i else None)"
| "Index_from i sub (c # cs) =
     (if take (length sub) (c # cs) = sub then Some i else Index_from (Suc i) sub cs)"

definition Index :: "string \<Rightarrow> string \<Rightarrow> nat option" where
  "Index s sub = Index_from 0 sub s"

definition HasPrefix :: "string \<Rightarrow> string \<Rightarrow> bool" where
  "HasPrefix s p = (take (length p) s = p)"

definition HasSuffix :: "string \<Rightarrow> string \<Rightarrow> bool" where
  "HasSuffix s p = (length p \<le> length s \<and> drop (length s - length p) s = p)"

subsection \<open>Escaping\<close>

definition ishex :: "char \<Rightarrow> bool" where
  "ishex c = (isDigit c \<or> c \<in> set ''abcdef'' \<or> c \<in> set ''ABCDEF'')"

definition unhex :: "char \<Rightarrow> nat" where
  "unhex c =
     (if isDigit c then of_char c - of_char (CHR ''0'')
      else if c \<in> set ''abcdef'' then of_char c - of_char (CHR ''a'') + 10
      else if c \<in> set ''ABCDEF'' then of_char c - of_char (CHR ''A'') + 10
      else 0)"

definition upperhex :: "nat \<Rightarrow> char" where
  "upperhex n = ''0123456789ABCDEF'' ! (n mod 16)"

datatype encoding =
    encodePath
  | encodePathSegment
  | encodeHost
  | encodeZone
  | encodeUserPassword
  | encodeQueryComponent
  | encodeFragment

definition shouldEscape :: "char \<Rightarrow> encoding \<Rightarrow> bool" where
  "shouldEscape c mode =
     (if isLower c \<or> isUpper c \<or> isDigit c then False
      else if (mode = encodeHost \<or> mode = encodeZone) \<and>
              c \<in> set (''!$&'' @ [CHR 0x27] @ ''()*+,;=:[]<>'' @ [CHR 0x22])
      then False
      else if c \<in> set ''-_.~'' then False
      else if c \<in> set ''$&+,/:;=?@'' \<and> mode = encodePath then c = CHR ''?''
      else if c \<in> set ''$&+,/:;=?@'' \<and> mode = encodePathSegment
      then c = CHR ''/'' \<or> c = CHR '';'' \<or> c = CHR '','' \<or> c = CHR ''?''
      else if c \<in> set ''$&+,/:;=?@'' \<and> mode = encodeUserPassword
      then c = CHR ''@'' \<or> c = CHR ''/'' \<or> c = CHR ''?'' \<or> c = CHR '':''
      else if c \<in> set ''$&+,/:;=?@'' \<and> mode = encodeQueryComponent then True
      else if c \<in> set ''$&+,/:;=?@'' \<and> mode = encodeFragment then False
      else if mode = encodeFragment \<and> c \<in> set ''!()*'' then False
      else True)"

text \<open>The first pass of \<^verbatim>\<open>unescape\<close>: the first malformed or forbidden byte, if any.\<close>

fun unescape_check :: "encoding \<Rightarrow> string \<Rightarrow> error option" where
  "unescape_check mode [] = None"
| "unescape_check mode (c # cs) =
     (if c = CHR ''%'' then
        (case cs of
          h # l # rest \<Rightarrow>
            if \<not> ishex h \<or> \<not> ishex l then Some (EscapeError (take 3 (c # cs)))
            else if mode = encodeHost \<and> unhex h < 8 \<and> [c, h, l] \<noteq> ''%25''
            then Some (EscapeError [c, h, l])
            else if mode = encodeZone \<and> [c, h, l] \<noteq> ''%25'' \<and> unhex h * 16 + unhex l \<noteq> 32 \<and>
                    shouldEscape (char_of (unhex h * 16 + unhex l)) encodeHost
            then Some (EscapeError [c, h, l])
            else unescape_check mode rest
        | _ \<Rightarrow> Some (EscapeError (take 3 (c # cs))))
      else if c = CHR ''+'' then unescape_check mode cs
      else if (mode = encodeHost \<or> mode = encodeZone) \<and> (of_char c :: nat) < 0x80 \<and>
              shouldEscape c encodeHost
      then Some (InvalidHostError [c])
      else unescape_check mode cs)"

text \<open>The second pass, which runs on checked strings only: there every \<^verbatim>\<open>%\<close> is
  followed by two hexadecimal digits.\<close>

fun unescape_decode :: "encoding \<Rightarrow> string \<Rightarrow> string" where
  "unescape_decode mode [] = []"
| "unescape_decode mode (c # cs) =
     (if c = CHR ''%'' then
        (case cs of
          h # l # rest \<Rightarrow> char_of (unhex h * 16 + unhex l) # unescape_decode mode rest
        | _ \<Rightarrow> c # cs)
      else if c = CHR ''+'' then
        (if mode = encodeQueryComponent then CHR '' '' else CHR ''+'') # unescape_decode mode cs
      else c # unescape_decode mode cs)"

definition unescape :: "string \<Rightarrow> encoding \<Rightarrow> error + string" where
  "unescape s mode =
     (case unescape_check mode s of
       Some e \<Rightarrow> Inl e
     | None \<Rightarrow> Inr (unescape_decode mode s))"

definition escape_byte :: "encoding \<Rightarrow> char \<Rightarrow> string" where
  "escape_byte mode c =
     (if c = CHR '' '' \<and> mode = encodeQueryComponent then ''+''
      else if shouldEscape c mode
      then [CHR ''%'', upperhex ((of_char c :: nat) div 16), upperhex (of_char c)]
      else [c])"

definition escape :: "string \<Rightarrow> encoding \<Rightarrow> string" where
  "escape s mode = concat (map (escape_byte mode) s)"

definition validEncoded :: "string \<Rightarrow> encoding \<Rightarrow> bool" where
  "validEncoded s mode =
     list_all (\<lambda>c. c \<in> set (''!$&'' @ [CHR 0x27] @ ''()*+,;=:@[]%'') \<or> \<not> shouldEscape c mode) s"

subsection \<open>Parsing\<close>

definition stringContainsCTLByte :: "string \<Rightarrow> bool" where
  "stringContainsCTLByte s = list_ex (\<lambda>b. (of_char b :: nat) < 0x20 \<or> (of_char b :: nat) = 0x7F) s"

text \<open>\<^verbatim>\<open>getScheme\<close>: the loop over the bytes of \<open>rawURL\<close>, at position \<open>i\<close>.\<close>

fun getScheme_from :: "string \<Rightarrow> nat \<Rightarrow> string \<Rightarrow> error + (string \<times> string)" where
  "getScheme_from rawURL i [] = Inr ('''', rawURL)"
| "getScheme_from rawURL i (c # cs) =
     (if isLower c \<or> isUpper c then getScheme_from rawURL (Suc i) cs
      else if isDigit c \<or> c = CHR ''+'' \<or> c = CHR ''-'' \<or> c = CHR ''.'' then
        (if i = 0 then Inr ('''', rawURL) else getScheme_from rawURL (Suc i) cs)
      else if c = CHR '':'' then
        (if i = 0 then Inl (ErrorString ''missing protocol scheme'')
         else Inr (take i rawURL, drop (Suc i) rawURL))
      else Inr ('''', rawURL))"

definition getScheme :: "string \<Rightarrow> error + (string \<times> string)" where
  "getScheme rawURL = getScheme_from rawURL 0 rawURL"

definition validUserinfo :: "string \<Rightarrow> bool" where
  "validUserinfo s =
     list_all (\<lambda>r. isUpper r \<or> isLower r \<or> isDigit r \<or>
                     r \<in> set (''-._:~!$&'' @ [CHR 0x27] @ ''()*+,;=%@'')) s"

definition validOptionalPort :: "string \<Rightarrow> bool" where
  "validOptionalPort port =
     (case port of
       [] \<Rightarrow> True
     | c # digits \<Rightarrow> c = CHR '':'' \<and> list_all isDigit digits)"

definition parseHost :: "string \<Rightarrow> error + string" where
  "parseHost host =
     (if HasPrefix host ''['' then
        (case LastIndex host (CHR '']'') of
          None \<Rightarrow> Inl (ErrorString (''missing '' @ [CHR 0x27] @ '']'' @ [CHR 0x27] @ '' in host''))
        | Some i \<Rightarrow>
            if \<not> validOptionalPort (drop (Suc i) host) then Inl (PortError (drop (Suc i) host))
            else
              (case Index (take i host) ''%25'' of
                Some zone \<Rightarrow>
                  (case unescape (take zone host) encodeHost of
                    Inl e \<Rightarrow> Inl e
                  | Inr host1 \<Rightarrow>
                      (case unescape (drop zone (take i host)) encodeZone of
                        Inl e \<Rightarrow> Inl e
                      | Inr host2 \<Rightarrow>
                          (case unescape (drop i host) encodeHost of
                            Inl e \<Rightarrow> Inl e
                          | Inr host3 \<Rightarrow> Inr (host1 @ host2 @ host3))))
              | None \<Rightarrow> unescape host encodeHost))
      else
        (case LastIndex host (CHR '':'') of
          Some i \<Rightarrow>
            if \<not> validOptionalPort (drop i host) then Inl (PortError (drop i host))
            else unescape host encodeHost
        | None \<Rightarrow> unescape host encodeHost))"

definition parseAuthority :: "string \<Rightarrow> error + (Userinfo option \<times> string)" where
  "parseAuthority authority =
     (case LastIndex authority (CHR ''@'') of
       None \<Rightarrow>
         (case parseHost authority of
           Inl e \<Rightarrow> Inl e
         | Inr host \<Rightarrow> Inr (None, host))
     | Some i \<Rightarrow>
         (case parseHost (drop (Suc i) authority) of
           Inl e \<Rightarrow> Inl e
         | Inr host \<Rightarrow>
             (let userinfo = take i authority in
              if \<not> validUserinfo userinfo then Inl (ErrorString ''net/url: invalid userinfo'')
              else if CHR '':'' \<notin> set userinfo then
                (case unescape userinfo encodeUserPassword of
                  Inl e \<Rightarrow> Inl e
                | Inr name \<Rightarrow>
                    Inr (Some \<lparr>ui_username = name, ui_password = '''', ui_passwordSet = False\<rparr>, host))
              else
                (case Cut userinfo (CHR '':'') of
                  (name0, pass0, found) \<Rightarrow>
                    (case unescape name0 encodeUserPassword of
                      Inl e \<Rightarrow> Inl e
                    | Inr name \<Rightarrow>
                        (case unescape pass0 encodeUserPassword of
                          Inl e \<Rightarrow> Inl e
                        | Inr pass \<Rightarrow>
                            Inr (Some \<lparr>ui_username = name, ui_password = pass, ui_passwordSet = True\<rparr>,
                                 host)))))))"

definition setPath :: "URL \<Rightarrow> string \<Rightarrow> error + URL" where
  "setPath u p =
     (case unescape p encodePath of
       Inl e \<Rightarrow> Inl e
     | Inr path \<Rightarrow>
         Inr (u\<lparr>Path := path, RawPath := (if p = escape path encodePath then '''' else p)\<rparr>))"

definition setFragment :: "URL \<Rightarrow> string \<Rightarrow> error + URL" where
  "setFragment u f =
     (case unescape f encodeFragment of
       Inl e \<Rightarrow> Inl e
     | Inr frag \<Rightarrow>
         Inr (u\<lparr>Fragment := frag,
                RawFragment := (if f = escape frag encodeFragment then '''' else f)\<rparr>))"

text \<open>\<^verbatim>\<open>parse(rawURL, viaRequest)\<close> with \<^verbatim>\<open>viaRequest\<close> false, as \<^verbatim>\<open>url.Parse\<close>
  calls it.\<close>

definition parse :: "string \<Rightarrow> error + URL" where
  "parse rawURL =
     (if stringContainsCTLByte rawURL
      then Inl (ErrorString ''net/url: invalid control character in URL'')
      else if rawURL = ''*'' then Inr (emptyURL\<lparr>Path := ''*''\<rparr>)
      else
        (case getScheme rawURL of
          Inl e \<Rightarrow> Inl e
        | Inr (scheme0, rest0) \<Rightarrow>
            (let scheme = toLower scheme0;
                 force = (HasSuffix rest0 ''?'' \<and> count_list rest0 (CHR ''?'') = 1);
                 rest = (if force then butlast rest0 else fst (Cut rest0 (CHR ''?'')));
                 query = (if force then '''' else fst (snd (Cut rest0 (CHR ''?''))));
                 u = emptyURL\<lparr>Scheme := scheme, ForceQuery := force, RawQuery := query\<rparr>
             in if \<not> HasPrefix rest ''/'' \<and> scheme \<noteq> '''' then Inr (u\<lparr>Opaque := rest\<rparr>)
                else if \<not> HasPrefix rest ''/'' \<and> CHR '':'' \<in> set (fst (Cut rest (CHR ''/'')))
                then Inl (ErrorString ''first path segment in URL cannot contain colon'')
                else if (scheme \<noteq> '''' \<or> \<not> HasPrefix rest ''///'') \<and> HasPrefix rest ''//'' then
                  (let a0 = drop 2 rest;
                       authority = (case Index a0 ''/'' of Some i \<Rightarrow> take i a0 | None \<Rightarrow> a0);
                       rest' = (case Index a0 ''/'' of Some i \<Rightarrow> drop i a0 | None \<Rightarrow> '''')
                   in case parseAuthority authority of
                        Inl e \<Rightarrow> Inl e
                      | Inr (usr, host) \<Rightarrow> setPath (u\<lparr>User := usr, Host := host\<rparr>) rest')
                else if scheme \<noteq> '''' \<and> HasPrefix rest ''/''
                then setPath (u\<lparr>OmitHost := True\<rparr>) rest
                else setPath u rest)))"

definition url_Parse :: "string \<Rightarrow> error + URL" where
  "url_Parse rawURL =
     (case Cut rawURL (CHR ''#'') of
       (u, frag, found) \<Rightarrow>
         (case parse u of
           Inl e \<Rightarrow> Inl (URLError ''parse'' u e)
         | Inr url \<Rightarrow>
             if frag = '''' then Inr url
             else
               (case setFragment url frag of
                 Inl e \<Rightarrow> Inl (URLError ''parse'' rawURL e)
               | Inr url' \<Rightarrow> Inr url')))"

subsection \<open>Writing a URL\<close>

definition EscapedPath :: "URL \<Rightarrow> string" where
  "EscapedPath u =
     (if RawPath u \<noteq> '''' \<and> validEncoded (RawPath u) encodePath \<and>
         unescape (RawPath u) encodePath = Inr (Path u)
      then RawPath u
      else if Path u = ''*'' then ''*''
      else escape (Path u) encodePath)"

definition EscapedFragment :: "URL \<Rightarrow> string" where
  "EscapedFragment u =
     (if RawFragment u \<noteq> '''' \<and> validEncoded (RawFragment u) encodeFragment \<and>
         unescape (RawFragment u) encodeFragment = Inr (Fragment u)
      then RawFragment u
      else escape (Fragment u) encodeFragment)"

definition Userinfo_String :: "Userinfo \<Rightarrow> string" where
  "Userinfo_String ui =
     escape (ui_username ui) encodeUserPassword
       @ (if ui_passwordSet ui then '':'' @ escape (ui_password ui) encodeUserPassword else '''')"

text \<open>\<^verbatim>\<open>(*URL).String\<close>; \<open>buf\<close> is what has been written before the path.\<close>

definition URL_String :: "URL \<Rightarrow> string" where
  "URL_String u =
     (let buf0 = (if Scheme u \<noteq> '''' then Scheme u @ '':'' else '''');
          buf1 =
            (if Opaque u \<noteq> '''' then buf0 @ Opaque u
             else
               (let buf =
                      (if Scheme u \<noteq> '''' \<or> Host u \<noteq> '''' \<or> User u \<noteq> None then
                         (if OmitHost u \<and> Host u = '''' \<and> User u = None then buf0
                          else
                            buf0
                              @ (if Host u \<noteq> '''' \<or> Path u \<noteq> '''' \<or> User u \<noteq> None then ''//''
                                 else '''')
                              @ (case User u of
                                   Some ui \<Rightarrow> Userinfo_String ui @ ''@''
                                 | None \<Rightarrow> '''')
                              @ (if Host u \<noteq> '''' then escape (Host u) encodeHost else ''''))
                       else buf0);
                    path = EscapedPath u;
                    buf' = buf @ (if path \<noteq> '''' \<and> hd path \<noteq> CHR ''/'' \<and> Host u \<noteq> ''''
                                  then ''/'' else '''')
                in buf'
                     @ (if buf' = '''' \<and> CHR '':'' \<in> set (fst (Cut path (CHR ''/'')))
                        then ''./'' else '''')
                     @ path))
      in buf1
           @ (if ForceQuery u \<or> RawQuery u \<noteq> '''' then ''?'' @ RawQuery u else '''')
           @ (if Fragment u \<noteq> '''' then ''#'' @ EscapedFragment u else ''''))"

subsection \<open>Joining a path to a URL\<close>

text \<open>\<^verbatim>\<open>joinUrlPath\<close>: the string it returns and what it logs.\<close>

definition joinUrlPath :: "string \<Rightarrow> string \<Rightarrow> logger \<Rightarrow> string \<times> event list" where
  "joinUrlPath base additionalPath lg =
     (case url_Parse base of
       Inl err \<Rightarrow>
         (base,
          [EvLog lg LvlDebug ''failed to parse URL while joining URL''
             [(''url'', S base), (''error'', ErrText err)]])
     | Inr u \<Rightarrow> (URL_String (u\<lparr>Path := path_Join [Path u, additionalPath]\<rparr>), []))"

subsection \<open>What joining means\<close>

text \<open>
  The elements of a slash-separated path: the non-empty pieces between separators.  A
  path is free of dots when none of its elements is \<^verbatim>\<open>.\<close> or \<^verbatim>\<open>..\<close>.  \<open>joinElems\<close>
  writes elements with one separator between neighbours, and \<open>addElem\<close> is the step by
  which the loop of \<^verbatim>\<open>path.Clean\<close> copies an ordinary element to its output.
\<close>

function elems :: "string \<Rightarrow> string list" where
  "elems [] = []"
| "elems (c # cs) =
     (if c = CHR ''/'' then elems cs
      else takeWhile (\<lambda>x. x \<noteq> CHR ''/'') (c # cs)
             # elems (dropWhile (\<lambda>x. x \<noteq> CHR ''/'') (c # cs)))"
  by pat_completeness auto
termination
  by (relation "measure length")
     (auto simp: less_Suc_eq_le length_dropWhile_le)

definition dotfree :: "string \<Rightarrow> bool" where
  "dotfree s = (''.'' \<notin> set (elems s) \<and> ''..'' \<notin> set (elems s))"

fun joinElems :: "string list \<Rightarrow> string" where
  "joinElems [] = []"
| "joinElems (e # es) = e @ concat (map (\<lambda>x. CHR ''/'' # x) es)"

definition addElem :: "bool \<Rightarrow> string \<Rightarrow> string \<Rightarrow> string" where
  "addElem rooted out e =
     (if rooted \<and> length out \<noteq> 1 \<or> \<not> rooted \<and> length out \<noteq> 0 then out @ ''/'' else out) @ e"

section \<open>Sending an HTTP request\<close>

text \<open>\<^verbatim>\<open>base64.StdEncoding.EncodeToString\<close>.\<close>

definition encodeStd :: "nat \<Rightarrow> char" where
  "encodeStd n =
     ''ABCDEFGHIJKLMNOPQRSTUVWXYZabcdefghijklmnopqrstuvwxyz0123456789+/'' ! (n mod 64)"

fun EncodeToString :: "string \<Rightarrow> string" where
  "EncodeToString (a # b # c # rest) =
     [encodeStd ((of_char a :: nat) div 4),
      encodeStd (((of_char a :: nat) mod 4) * 16 + (of_char b :: nat) div 16),
      encodeStd (((of_char b :: nat) mod 16) * 4 + (of_char c :: nat) div 64),
      encodeStd ((of_char c :: nat) mod 64)] @ EncodeToString rest"
| "EncodeToString [a, b] =
     [encodeStd ((of_char a :: nat) div 4),
      encodeStd (((of_char a :: nat) mod 4) * 16 + (of_char b :: nat) div 16),
      encodeStd (((of_char b :: nat) mod 16) * 4),
      CHR ''='']"
| "EncodeToString [a] =
     [encodeStd ((of_char a :: nat) div 4),
      encodeStd (((of_char a :: nat) mod 4) * 16),
      CHR ''='', CHR ''='']"
| "EncodeToString [] = []"

definition basicAuth :: "string \<Rightarrow> string \<Rightarrow> string" where
  "basicAuth usr pass = EncodeToString (usr @ '':'' @ pass)"

text \<open>\<^verbatim>\<open>Header.Set\<close> and \<^verbatim>\<open>Header.Get\<close>; the three keys the function sets are in
  canonical form already.\<close>

definition Header_Set ::
  "(string \<times> string list) list \<Rightarrow> string \<Rightarrow> string \<Rightarrow> (string \<times> string list) list" where
  "Header_Set h key v = (key, [v]) # filter (\<lambda>p. fst p \<noteq> key) h"

definition Header_Get :: "(string \<times> string list) list \<Rightarrow> string \<Rightarrow> string" where
  "Header_Get h key = (case map_of h key of Some (v # vs) \<Rightarrow> v | _ \<Rightarrow> '''')"

definition SetBasicAuth :: "Request \<Rightarrow> string \<Rightarrow> string \<Rightarrow> Request" where
  "SetBasicAuth r usr pass =
     r\<lparr>Header := Header_Set (Header r) ''Authorization'' (''Basic '' @ basicAuth usr pass)\<rparr>"

text \<open>\<^verbatim>\<open>http.NewRequestWithContext\<close> with a context that is not nil and a valid method:
  it fails when the URL does not parse.\<close>

definition hasPort :: "string \<Rightarrow> bool" where
  "hasPort s =
     (case LastIndex s (CHR '':'') of
       None \<Rightarrow> False
     | Some i \<Rightarrow> (case LastIndex s (CHR '']'') of None \<Rightarrow> True | Some j \<Rightarrow> j < i))"

definition removeEmptyPort :: "string \<Rightarrow> string" where
  "removeEmptyPort host =
     (if hasPort host \<and> HasSuffix host '':'' then butlast host else host)"

definition NewRequestWithContext :: "string \<Rightarrow> string \<Rightarrow> string option \<Rightarrow> error + Request" where
  "NewRequestWithContext method rawurl reader =
     (case url_Parse rawurl of
       Inl err \<Rightarrow> Inl err
     | Inr u \<Rightarrow>
         Inr \<lparr>Method = method, URL = u\<lparr>Host := removeEmptyPort (Host u)\<rparr>, Header = [],
              Body = reader\<rparr>)"

text \<open>\<^verbatim>\<open>%d\<close> of an integer.\<close>

function decimal :: "nat \<Rightarrow> string" where
  "decimal n =
     (if n < 10 then [char_of (of_char (CHR ''0'') + n)]
      else decimal (n div 10) @ [char_of (of_char (CHR ''0'') + n mod 10)])"
  by pat_completeness auto
termination
  by (relation "measure id") auto

declare decimal.simps [simp del]

definition itoa :: "int \<Rightarrow> string" where
  "itoa i = (if i < 0 then ''-'' @ decimal (nat (- i)) else decimal (nat i))"

text \<open>
  \<^verbatim>\<open>sendHTTPRequest\<close>.  \<^verbatim>\<open>netClient.Do\<close>, the client with the fixed transport and
  time limits, is the parameter \<open>doer\<close>: it acts on the world and yields a transport
  error or a response.  The deferred closing of the body runs last on every path that
  got a response.
\<close>

definition closeBody :: "logger \<Rightarrow> Response \<Rightarrow> event list" where
  "closeBody lg resp =
     EvClose (BodyClose resp)
       # (case BodyClose resp of
            Some err \<Rightarrow> [EvLog lg LvlWarn ''failed to close response body'' [(''error'', E err)]]
          | None \<Rightarrow> [])"

definition buildRequest :: "URL \<Rightarrow> httpCfg \<Rightarrow> error + Request" where
  "buildRequest url cfg =
     (let reader = (if 0 < length (body cfg) then Some (body cfg) else None) in
      case NewRequestWithContext ''POST'' (URL_String url) reader of
        Inl err \<Rightarrow> Inl (WrapError ''failed to create HTTP request: '' err)
      | Inr request \<Rightarrow>
          (let request1 = (if user cfg \<noteq> '''' \<and> password cfg \<noteq> ''''
                           then SetBasicAuth request (user cfg) (password cfg) else request);
               request2 = request1\<lparr>Header := Header_Set (Header request1) ''Content-Type''
                                                 ''application/json''\<rparr>
           in Inr (request2\<lparr>Header := Header_Set (Header request2) ''User-Agent'' ''Grafana''\<rparr>)))"

definition sendHTTPRequest ::
  "(Request \<Rightarrow> 'w \<Rightarrow> (error + Response) \<times> 'w) \<Rightarrow> URL \<Rightarrow> httpCfg \<Rightarrow> logger \<Rightarrow> 'w \<Rightarrow>
     (string option \<times> error option) \<times> event list \<times> 'w" where
  "sendHTTPRequest doer url cfg lg w =
     (case buildRequest url cfg of
       Inl err \<Rightarrow> ((None, Some err), [], w)
     | Inr request \<Rightarrow>
         (case doer request w of
           (Inl err, w1) \<Rightarrow> ((None, Some err), [EvDo request], w1)
         | (Inr resp, w1) \<Rightarrow>
             (case RespBody resp of
               Inl err \<Rightarrow>
                 ((None, Some (WrapError ''failed to read response body: '' err)),
                  EvDo request # closeBody lg resp, w1)
             | Inr respBody \<Rightarrow>
                 if StatusCode resp sdiv 100 \<noteq> 2 then
                   ((None,
                     Some (ErrorString (''failed to send HTTP request - status code ''
                                          @ itoa (StatusCode resp)))),
                    EvDo request
                      # EvLog lg LvlWarn ''HTTP request failed''
                          [(''url'', S (URL_String (URL request))),
                           (''statusCode'', S (Status resp)), (''body'', S respBody)]
                      # closeBody lg resp,
                    w1)
                 else
                   ((Some respBody, None),
                    EvDo request
                      # EvLog lg LvlDebug ''sending HTTP request succeeded''
                          [(''url'', S (URL_String (URL request))),
                           (''statusCode'', S (Status resp))]
                      # closeBody lg resp,
                    w1))))"

text \<open>A sample endpoint: the world is the list of the requests received; the path
  \<^verbatim>\<open>/ok\<close> answers 200 with the body \<^verbatim>\<open>done\<close>, the path \<^verbatim>\<open>/down\<close> is not
  reachable, and every other path answers 500 with a long body.\<close>

definition sample_doer :: "Request \<Rightarrow> Request list \<Rightarrow> (error + Response) \<times> Request list" where
  "sample_doer r w =
     (if Path (URL r) = ''/down'' then (Inl (ErrorString ''connection refused''), w @ [r])
      else if Path (URL r) = ''/ok''
      then (Inr \<lparr>StatusCode = 200, Status = ''200 OK'', RespBody = Inr ''done'',
                 BodyClose = None\<rparr>, w @ [r])
      else (Inr \<lparr>StatusCode = 500, Status = ''500 Internal Server Error'',
                 RespBody = Inr ''stack trace of the remote service'', BodyClose = None\<rparr>,
            w @ [r]))"

definition sample_url :: "string \<Rightarrow> URL" where
  "sample_url p = emptyURL\<lparr>Scheme := ''http'', Host := ''localhost:3000'', Path := p\<rparr>"

definition sample_cfg :: "string \<Rightarrow> string \<Rightarrow> httpCfg" where
  "sample_cfg usr pass = \<lparr>body = ''{}'', user = usr, password = pass\<rparr>"


section \<open>Facts about one pass of the loop\<close>

lemma body_shape:
  assumes "withStoredImages_body key astr l store f index a w = (c, evs, w1)"
    and "tok = getTokenFromAnnotations key (Annotations a)"
  shows "(tok = '''' \<and> c = Continue \<and> evs = [])
    \<or> (\<exists>si se. tok \<noteq> '''' \<and>
          (errors_Is se ErrImageNotFound \<or> errors_Is se ErrImagesUnavailable \<or> (si = None \<and> se = None)) \<and>
          c = Continue \<and> evs = [EvGetImage tok (si, se)])
    \<or> (\<exists>si e lg. tok \<noteq> '''' \<and>
          \<not> errors_Is (Some e) ErrImageNotFound \<and> \<not> errors_Is (Some e) ErrImagesUnavailable \<and>
          c = Return (Some e) \<and>
          evs = [EvGetImage tok (si, Some e),
                 EvLog lg LvlWarn ''failed to get image with token''
                   [(''token'', S tok), (''error'', E e)]])
    \<or> (\<exists>im. tok \<noteq> '''' \<and> c = Continue \<and>
          evs = [EvGetImage tok (Some im, None), EvForEach index im None])
    \<or> (\<exists>im e. tok \<noteq> '''' \<and> errors_Is (Some e) ErrImagesDone \<and> c = Return None \<and>
          evs = [EvGetImage tok (Some im, None), EvForEach index im (Some e)])
    \<or> (\<exists>im e lg. tok \<noteq> '''' \<and> \<not> errors_Is (Some e) ErrImagesDone \<and> c = Return (Some e) \<and>
          evs = [EvGetImage tok (Some im, None), EvForEach index im (Some e),
                 EvLog lg LvlError ''Failed to attach image to notification'' [(''error'', E e)]])"
  using assms
  unfolding withStoredImages_body_def getImage_def Let_def
  by (auto split: if_splits prod.splits option.splits simp: errors_Is_def)

lemma body_foreach_index:
  assumes "withStoredImages_body key astr l store f index a w = (c, evs, w1)"
  shows "EvForEach j im r \<in> set evs \<Longrightarrow> j = index"
  using body_shape [OF assms refl] by auto

lemma body_getimage_tok:
  assumes "withStoredImages_body key astr l store f index a w = (c, evs, w1)"
  shows "EvGetImage tok res \<in> set evs \<Longrightarrow>
    tok = getTokenFromAnnotations key (Annotations a) \<and> tok \<noteq> ''''"
  using body_shape [OF assms refl] by auto

lemma body_counts:
  assumes "withStoredImages_body key astr l store f index a w = (c, evs, w1)"
  shows "length (filter isGetImage evs) \<le> 1 \<and> length (filter isForEach evs) \<le> 1"
  using body_shape [OF assms refl] by auto

lemma body_stop:
  assumes "withStoredImages_body key astr l store f index a w = (c, evs, w1)"
  shows "EvForEach j im (Some e) \<in> set evs \<Longrightarrow> errors_Is (Some e) ErrImagesDone \<Longrightarrow>
    c = Return None"
  using body_shape [OF assms refl] by auto

lemma body_fail:
  assumes "withStoredImages_body key astr l store f index a w = (c, evs, w1)"
  shows "EvGetImage tok (si, Some e) \<in> set evs \<Longrightarrow>
    \<not> errors_Is (Some e) ErrImageNotFound \<Longrightarrow> \<not> errors_Is (Some e) ErrImagesUnavailable \<Longrightarrow>
      c = Return (Some e) \<and> (\<forall>ev \<in> set evs. \<not> isForEach ev)"
  using body_shape [OF assms refl] by auto

lemma body_visit_iff:
  assumes "withStoredImages_body key astr l store f index a w = (c, evs, w1)"
  shows "(\<exists>j r. EvForEach j im r \<in> set evs) \<longleftrightarrow>
    (\<exists>tok. EvGetImage tok (Some im, None) \<in> set evs)"
  using body_shape [OF assms refl] by (auto simp: errors_Is_def)

lemma body_notoken:
  assumes "withStoredImages_body key astr l store f index a w = (c, evs, w1)"
  shows "Annotations a key = None \<Longrightarrow> evs = []"
  using body_shape [OF assms refl] by (auto simp: getTokenFromAnnotations_def)

section \<open>Facts about the whole loop\<close>

lemma from_Cons_cases:
  assumes "withStoredImages_from key astr l store f k (a # alerts) w = (r, tr, w')"
  shows "(\<exists>evs. withStoredImages_body key astr l store f k a w = (Return r, evs, w') \<and> tr = map (Pair k) evs)
    \<or> (\<exists>evs w1 tr'. withStoredImages_body key astr l store f k a w = (Continue, evs, w1) \<and>
          withStoredImages_from key astr l store f (Suc k) alerts w1 = (r, tr', w') \<and>
          tr = map (Pair k) evs @ tr')"
  using assms by (simp split: prod.splits control.splits)

lemma from_tags:
  "withStoredImages_from key astr l store f k alerts w = (r, tr, w') \<Longrightarrow> (t, ev) \<in> set tr \<Longrightarrow>
     k \<le> t \<and> t < k + length alerts"
proof (induction alerts arbitrary: k w r tr w')
  case Nil
  then show ?case by simp
next
  case (Cons a alerts)
  from from_Cons_cases [OF Cons.prems(1)] show ?case
  proof (elim disjE exE conjE)
    fix evs assume "tr = map (Pair k) evs"
    with Cons.prems(2) show ?thesis by auto
  next
    fix evs w1 tr'
    assume r: "withStoredImages_from key astr l store f (Suc k) alerts w1 = (r, tr', w')"
      and tr: "tr = map (Pair k) evs @ tr'"
    from Cons.prems(2) tr consider "t = k" | "(t, ev) \<in> set tr'" by auto
    then show ?thesis
    proof cases
      case 1 then show ?thesis by simp
    next
      case 2
      from Cons.IH [OF r 2] show ?thesis by simp
    qed
  qed
qed

lemma from_event_args:
  "withStoredImages_from key astr l store f k alerts w = (r, tr, w') \<Longrightarrow> (t, ev) \<in> set tr \<Longrightarrow>
     (\<forall>tok res. ev = EvGetImage tok res \<longrightarrow>
        tok = getTokenFromAnnotations key (Annotations (alerts ! (t - k))) \<and> tok \<noteq> '''') \<and>
     (\<forall>j im res. ev = EvForEach j im res \<longrightarrow> j = t)"
proof (induction alerts arbitrary: k w r tr w')
  case Nil
  then show ?case by simp
next
  case (Cons a alerts)
  from from_Cons_cases [OF Cons.prems(1)] show ?case
  proof (elim disjE exE conjE)
    fix evs assume b: "withStoredImages_body key astr l store f k a w = (Return r, evs, w')"
      and "tr = map (Pair k) evs"
    with Cons.prems(2) have tk: "t = k" and ev: "ev \<in> set evs" by auto
    have "\<forall>tok res. ev = EvGetImage tok res \<longrightarrow>
        tok = getTokenFromAnnotations key (Annotations a) \<and> tok \<noteq> ''''"
      using body_getimage_tok [OF b] ev by blast
    moreover have "\<forall>j im res. ev = EvForEach j im res \<longrightarrow> j = k"
      using body_foreach_index [OF b] ev by blast
    ultimately show ?thesis using tk by simp
  next
    fix evs w1 tr'
    assume b: "withStoredImages_body key astr l store f k a w = (Continue, evs, w1)"
      and r: "withStoredImages_from key astr l store f (Suc k) alerts w1 = (r, tr', w')"
      and tr: "tr = map (Pair k) evs @ tr'"
    from Cons.prems(2) tr consider "t = k" "ev \<in> set evs" | "(t, ev) \<in> set tr'" by auto
    then show ?thesis
    proof cases
      case 1
      have "\<forall>tok res. ev = EvGetImage tok res \<longrightarrow>
          tok = getTokenFromAnnotations key (Annotations a) \<and> tok \<noteq> ''''"
        using body_getimage_tok [OF b] 1(2) by blast
      moreover have "\<forall>j im res. ev = EvForEach j im res \<longrightarrow> j = k"
        using body_foreach_index [OF b] 1(2) by blast
      ultimately show ?thesis using 1(1) by simp
    next
      case 2
      from from_tags [OF r 2] have "t - k = Suc (t - Suc k)" by arith
      with Cons.IH [OF r 2] show ?thesis by simp
    qed
  qed
qed

lemma from_sorted:
  "withStoredImages_from key astr l store f k alerts w = (r, tr, w') \<Longrightarrow> sorted (map fst tr)"
proof (induction alerts arbitrary: k w r tr w')
  case Nil
  then show ?case by simp
next
  case (Cons a alerts)
  from from_Cons_cases [OF Cons.prems(1)] show ?case
  proof (elim disjE exE conjE)
    fix evs assume "tr = map (Pair k) evs"
    then have "map fst tr = replicate (length evs) k" by (simp add: comp_def map_replicate_const)
    then show ?thesis by (simp add: sorted_replicate)
  next
    fix evs w1 tr'
    assume r: "withStoredImages_from key astr l store f (Suc k) alerts w1 = (r, tr', w')"
      and tr: "tr = map (Pair k) evs @ tr'"
    have "map fst tr = replicate (length evs) k @ map fst tr'"
      using tr by (simp add: comp_def map_replicate_const)
    moreover have "sorted (map fst tr')" by (rule Cons.IH [OF r])
    moreover have "\<forall>t \<in> set (map fst tr'). k \<le> t" using from_tags [OF r] by fastforce
    ultimately show ?thesis by (auto simp: sorted_append sorted_replicate)
  qed
qed

lemma from_counts:
  "withStoredImages_from key astr l store f k alerts w = (r, tr, w') \<Longrightarrow>
     length (queries tr) \<le> length alerts \<and> length (visits tr) \<le> length alerts \<and>
     distinct (map fst (queries tr)) \<and> distinct (map fst (visits tr))"
proof (induction alerts arbitrary: k w r tr w')
  case Nil
  then show ?case by (simp add: queries_def visits_def)
next
  case (Cons a alerts)
  have one: "length xs \<le> 1 \<Longrightarrow> distinct (map fst (map (Pair k) xs))" for xs :: "event list"
    by (cases xs) (auto simp: comp_def)
  have q: "queries (map (Pair k) evs) = map (Pair k) (filter isGetImage evs)" for evs
    by (simp add: queries_def filter_map comp_def)
  have v: "visits (map (Pair k) evs) = map (Pair k) (filter isForEach evs)" for evs
    by (simp add: visits_def filter_map comp_def)
  from from_Cons_cases [OF Cons.prems(1)] show ?case
  proof (elim disjE exE conjE)
    fix evs assume b: "withStoredImages_body key astr l store f k a w = (Return r, evs, w')"
      and tr: "tr = map (Pair k) evs"
    from body_counts [OF b] one [of "filter isGetImage evs"] one [of "filter isForEach evs"]
    show ?thesis unfolding tr q v by simp
  next
    fix evs w1 tr'
    assume b: "withStoredImages_body key astr l store f k a w = (Continue, evs, w1)"
      and r: "withStoredImages_from key astr l store f (Suc k) alerts w1 = (r, tr', w')"
      and tr: "tr = map (Pair k) evs @ tr'"
    have qa: "queries tr = map (Pair k) (filter isGetImage evs) @ queries tr'"
      using q by (simp add: tr queries_def)
    have va: "visits tr = map (Pair k) (filter isForEach evs) @ visits tr'"
      using v by (simp add: tr visits_def)
    have far: "k \<notin> fst ` set tr'" using from_tags [OF r] by fastforce
    have "set (queries tr') \<subseteq> set tr'" "set (visits tr') \<subseteq> set tr'"
      by (auto simp: queries_def visits_def)
    with far have far': "k \<notin> fst ` set (queries tr')" "k \<notin> fst ` set (visits tr')" by blast+
    from body_counts [OF b] Cons.IH [OF r] one [of "filter isGetImage evs"] one [of "filter isForEach evs"] far'
    show ?thesis unfolding qa va by (auto simp: comp_def)
  qed
qed

lemma from_stop:
  "withStoredImages_from key astr l store f k alerts w = (r, tr, w') \<Longrightarrow>
   (t, EvForEach j im (Some e)) \<in> set tr \<Longrightarrow> errors_Is (Some e) ErrImagesDone \<Longrightarrow>
     r = None \<and> (\<forall>p \<in> set tr. fst p \<le> t)"
proof (induction alerts arbitrary: k w r tr w')
  case Nil
  then show ?case by simp
next
  case (Cons a alerts)
  from from_Cons_cases [OF Cons.prems(1)] show ?case
  proof (elim disjE exE conjE)
    fix evs assume b: "withStoredImages_body key astr l store f k a w = (Return r, evs, w')"
      and tr: "tr = map (Pair k) evs"
    with Cons.prems(2) have tk: "t = k" and ev: "EvForEach j im (Some e) \<in> set evs" by auto
    from body_stop [OF b ev Cons.prems(3)] tk tr show ?thesis by auto
  next
    fix evs w1 tr'
    assume b: "withStoredImages_body key astr l store f k a w = (Continue, evs, w1)"
      and r: "withStoredImages_from key astr l store f (Suc k) alerts w1 = (r, tr', w')"
      and tr: "tr = map (Pair k) evs @ tr'"
    have "EvForEach j im (Some e) \<notin> set evs"
      using body_stop [OF b _ Cons.prems(3)] by blast
    with Cons.prems(2) tr have in': "(t, EvForEach j im (Some e)) \<in> set tr'" by auto
    from from_tags [OF r in'] have "k \<le> t" by simp
    with Cons.IH [OF r in' Cons.prems(3)] tr show ?thesis by auto
  qed
qed

lemma from_fail:
  "withStoredImages_from key astr l store f k alerts w = (r, tr, w') \<Longrightarrow>
   (t, EvGetImage tok (si, Some e)) \<in> set tr \<Longrightarrow>
   \<not> errors_Is (Some e) ErrImageNotFound \<Longrightarrow> \<not> errors_Is (Some e) ErrImagesUnavailable \<Longrightarrow>
     r = Some e \<and> (\<forall>p \<in> set tr. fst p \<le> t \<and> (isForEach (snd p) \<longrightarrow> fst p < t))"
proof (induction alerts arbitrary: k w r tr w')
  case Nil
  then show ?case by simp
next
  case (Cons a alerts)
  from from_Cons_cases [OF Cons.prems(1)] show ?case
  proof (elim disjE exE conjE)
    fix evs assume b: "withStoredImages_body key astr l store f k a w = (Return r, evs, w')"
      and tr: "tr = map (Pair k) evs"
    with Cons.prems(2) have tk: "t = k" and ev: "EvGetImage tok (si, Some e) \<in> set evs" by auto
    from body_fail [OF b ev Cons.prems(3,4)] tk tr show ?thesis by auto
  next
    fix evs w1 tr'
    assume b: "withStoredImages_body key astr l store f k a w = (Continue, evs, w1)"
      and r: "withStoredImages_from key astr l store f (Suc k) alerts w1 = (r, tr', w')"
      and tr: "tr = map (Pair k) evs @ tr'"
    have "EvGetImage tok (si, Some e) \<notin> set evs"
      using body_fail [OF b _ Cons.prems(3,4)] by blast
    with Cons.prems(2) tr have in': "(t, EvGetImage tok (si, Some e)) \<in> set tr'" by auto
    from from_tags [OF r in'] have "k < t" by simp
    with Cons.IH [OF r in' Cons.prems(3,4)] tr show ?thesis by auto
  qed
qed

lemma from_visit_iff:
  "withStoredImages_from key astr l store f k alerts w = (r, tr, w') \<Longrightarrow>
     (\<exists>j res. (t, EvForEach j im res) \<in> set tr) \<longleftrightarrow> (\<exists>tok. (t, EvGetImage tok (Some im, None)) \<in> set tr)"
proof (induction alerts arbitrary: k w r tr w')
  case Nil
  then show ?case by simp
next
  case (Cons a alerts)
  from from_Cons_cases [OF Cons.prems(1)] show ?case
  proof (elim disjE exE conjE)
    fix evs assume b: "withStoredImages_body key astr l store f k a w = (Return r, evs, w')"
      and tr: "tr = map (Pair k) evs"
    from body_visit_iff [OF b, of im] tr show ?thesis by auto
  next
    fix evs w1 tr'
    assume b: "withStoredImages_body key astr l store f k a w = (Continue, evs, w1)"
      and r: "withStoredImages_from key astr l store f (Suc k) alerts w1 = (r, tr', w')"
      and tr: "tr = map (Pair k) evs @ tr'"
    show ?thesis
    proof (cases "t = k")
      case True
      then have "(t, ev) \<notin> set tr'" for ev using from_tags [OF r, of t ev] by auto
      with body_visit_iff [OF b, of im] tr True show ?thesis by auto
    next
      case False
      with tr have "(t, ev) \<in> set tr \<longleftrightarrow> (t, ev) \<in> set tr'" for ev by auto
      with Cons.IH [OF r] show ?thesis by simp
    qed
  qed
qed

lemma from_notoken:
  "withStoredImages_from key astr l store f k alerts w = (r, tr, w') \<Longrightarrow>
   k \<le> t \<Longrightarrow> t < k + length alerts \<Longrightarrow> Annotations (alerts ! (t - k)) key = None \<Longrightarrow>
     (t, ev) \<notin> set tr"
proof (induction alerts arbitrary: k w r tr w')
  case Nil
  then show ?case by simp
next
  case (Cons a alerts)
  from from_Cons_cases [OF Cons.prems(1)] show ?case
  proof (elim disjE exE conjE)
    fix evs assume b: "withStoredImages_body key astr l store f k a w = (Return r, evs, w')"
      and tr: "tr = map (Pair k) evs"
    show ?thesis
    proof (cases "t = k")
      case True
      with Cons.prems(4) have "Annotations a key = None" by simp
      from body_notoken [OF b this] tr show ?thesis by simp
    next
      case False
      with tr show ?thesis by auto
    qed
  next
    fix evs w1 tr'
    assume b: "withStoredImages_body key astr l store f k a w = (Continue, evs, w1)"
      and r: "withStoredImages_from key astr l store f (Suc k) alerts w1 = (r, tr', w')"
      and tr: "tr = map (Pair k) evs @ tr'"
    show ?thesis
    proof (cases "t = k")
      case True
      with Cons.prems(4) have "Annotations a key = None" by simp
      from body_notoken [OF b this] have "evs = []" .
      moreover have "(t, ev) \<notin> set tr'" using from_tags [OF r, of t ev] True by auto
      ultimately show ?thesis using tr by simp
    next
      case False
      with Cons.prems(2,3) have 1: "Suc k \<le> t" "t < Suc k + length alerts" by simp_all
      then have "t - k = Suc (t - Suc k)" by arith
      with Cons.prems(4) have "Annotations (alerts ! (t - Suc k)) key = None" by simp
      from Cons.IH [OF r 1 this] tr False show ?thesis by auto
    qed
  qed
qed

lemma visits_iff: "p \<in> set (visits tr) \<longleftrightarrow> p \<in> set tr \<and> (\<exists>j im res. snd p = EvForEach j im res)"
  by (cases p, cases "snd p") (auto simp: visits_def)

lemma strict_sorted_filter_fst:
  assumes "sorted (map fst tr)" and "distinct (map fst (filter P tr))"
  shows "sorted_wrt (<) (map fst (filter P tr))"
  using assms by (simp add: strict_sorted_iff sorted_filter)

section \<open>Two sample runs\<close>

text \<open>The run whose visitor stops once it holds two images.\<close>

lemma sample_run_2:
  "sample_run 2 sample_alerts =
     (None,
      [(1, EvGetImage ''a'' (Some (sample_image ''a''), None)),
       (1, EvForEach 1 (sample_image ''a'') None),
       (2, EvGetImage ''gone'' (None, Some ErrImageNotFound)),
       (3, EvGetImage ''b'' (Some (sample_image ''b''), None)),
       (3, EvForEach 3 (sample_image ''b'') (Some ErrImagesDone))],
      [sample_image ''a'', sample_image ''b''])"
  by (simp add: sample_alerts_def sample_alert_def sample_key_def
      sample_store_def sample_firstN_def sample_alertString_def withStoredImages_def
      withStoredImages_body_def getImage_def getTokenFromAnnotations_def errors_Is_def
      logger_New_def Let_def)

lemma sample_run_9:
  "sample_run 9 sample_alerts =
     (Some (ErrorString ''connection refused''),
      [(1, EvGetImage ''a'' (Some (sample_image ''a''), None)),
       (1, EvForEach 1 (sample_image ''a'') None),
       (2, EvGetImage ''gone'' (None, Some ErrImageNotFound)),
       (3, EvGetImage ''b'' (Some (sample_image ''b''), None)),
       (3, EvForEach 3 (sample_image ''b'') None),
       (4, EvGetImage ''broken'' (None, Some (ErrorString ''connection refused''))),
       (4, EvLog [(''alert'', ''alert'')] LvlWarn ''failed to get image with token''
             [(''token'', S ''broken''), (''error'', E (ErrorString ''connection refused''))])],
      [sample_image ''a'', sample_image ''b''])"
  by (simp add: sample_alerts_def sample_alert_def sample_key_def
      sample_store_def sample_firstN_def sample_alertString_def withStoredImages_def
      withStoredImages_body_def getImage_def getTokenFromAnnotations_def errors_Is_def
      logger_New_def Let_def)

section \<open>The iteration: claims\<close>

text \<open>
  C9.  For every ordered alert list, the run of \<^verbatim>\<open>withStoredImages\<close> queries the
  image store at most once per alert and invokes the visitor at most once per alert, so
  neither count exceeds the number of alerts; the events of the trace occur in the input
  order of the alerts (the alert indices along the trace never decrease, and they strictly
  increase along the queries and along the visitor invocations); every query asks for the
  token of the alert being processed, and every visitor invocation receives that alert's
  index.
\<close>

theorem withStoredImages_bounded_in_order:
  assumes run: "withStoredImages key astr l store f alerts w = (r, tr, w')"
  shows "length (queries tr) \<le> length alerts \<and> length (visits tr) \<le> length alerts \<and>
         sorted (map fst tr) \<and>
         sorted_wrt (<) (map fst (queries tr)) \<and> sorted_wrt (<) (map fst (visits tr)) \<and>
         (\<forall>p \<in> set tr. fst p < length alerts \<and>
            (\<forall>tok res. snd p = EvGetImage tok res \<longrightarrow>
               tok = getTokenFromAnnotations key (Annotations (alerts ! fst p))) \<and>
            (\<forall>j im res. snd p = EvForEach j im res \<longrightarrow> j = fst p))"
proof -
  from run have run': "withStoredImages_from key astr l store f 0 alerts w = (r, tr, w')"
    by (simp add: withStoredImages_def)
  note c = from_counts [OF run']
  note s = from_sorted [OF run']
  have q: "sorted_wrt (<) (map fst (queries tr))"
    unfolding queries_def using s c by (intro strict_sorted_filter_fst) (simp_all add: queries_def)
  have v: "sorted_wrt (<) (map fst (visits tr))"
    unfolding visits_def using s c by (intro strict_sorted_filter_fst) (simp_all add: visits_def)
  have "fst p < length alerts \<and>
            (\<forall>tok res. snd p = EvGetImage tok res \<longrightarrow>
               tok = getTokenFromAnnotations key (Annotations (alerts ! fst p))) \<and>
            (\<forall>j im res. snd p = EvForEach j im res \<longrightarrow> j = fst p)" if "p \<in> set tr" for p
  proof -
    from that have m: "(fst p, snd p) \<in> set tr" by simp
    from from_tags [OF run' m] from_event_args [OF run' m] show ?thesis by simp
  qed
  with c s q v show ?thesis by blast
qed

text \<open>On the sample alerts, with a visitor that never signals the end, the run stops at
  the alert whose lookup fails; four lookups and two visits came before.\<close>

theorem withStoredImages_bounded_in_order_witness:
  "length (queries (fst (snd (sample_run 9 sample_alerts)))) \<le> length sample_alerts \<and>
   length (visits (fst (snd (sample_run 9 sample_alerts)))) \<le> length sample_alerts \<and>
   sorted_wrt (<) (map fst (queries (fst (snd (sample_run 9 sample_alerts))))) \<and>
   sorted_wrt (<) (map fst (visits (fst (snd (sample_run 9 sample_alerts))))) \<and>
   map fst (queries (fst (snd (sample_run 9 sample_alerts)))) = [1, 2, 3, 4] \<and>
   map fst (visits (fst (snd (sample_run 9 sample_alerts)))) = [1, 3]"
proof -
  have "sample_run 9 sample_alerts =
      (fst (sample_run 9 sample_alerts), fst (snd (sample_run 9 sample_alerts)),
       snd (snd (sample_run 9 sample_alerts)))"
    by simp
  from withStoredImages_bounded_in_order [OF this]
  have "length (queries (fst (snd (sample_run 9 sample_alerts)))) \<le> length sample_alerts \<and>
    length (visits (fst (snd (sample_run 9 sample_alerts)))) \<le> length sample_alerts \<and>
    sorted_wrt (<) (map fst (queries (fst (snd (sample_run 9 sample_alerts))))) \<and>
    sorted_wrt (<) (map fst (visits (fst (snd (sample_run 9 sample_alerts)))))"
    by blast
  moreover have "map fst (queries (fst (snd (sample_run 9 sample_alerts)))) = [1, 2, 3, 4] \<and>
    map fst (visits (fst (snd (sample_run 9 sample_alerts)))) = [1, 3]"
    by (simp add: sample_run_9 queries_def visits_def)
  ultimately show ?thesis by blast
qed

text \<open>
  C1, as amended.  If some visitor invocation of the run returns the stop signal
  (an error that \<^verbatim>\<open>errors.Is\<close> recognises as \<^verbatim>\<open>ErrImagesDone\<close>) at index \<open>i\<close>,
  then the iteration returns no error, nothing happens for any alert after \<open>i\<close>, and the
  visitor is invoked, in input order and once each, exactly for those indices \<open>j \<le> i\<close>
  whose alert resolved to an image (the store returned an image and no error); alerts
  that resolved to no image are skipped.
\<close>

theorem withStoredImages_stop:
  assumes run: "withStoredImages key astr l store f alerts w = (r, tr, w')"
    and ev: "(t, EvForEach i im (Some e)) \<in> set tr"
    and stp: "errors_Is (Some e) ErrImagesDone"
  shows "r = None \<and> t = i \<and> i < length alerts \<and>
         (\<forall>p \<in> set tr. fst p \<le> i) \<and>
         sorted_wrt (<) (map fst (visits tr)) \<and>
         set (map fst (visits tr)) =
           {j. j \<le> i \<and> (\<exists>tok im'. (j, EvGetImage tok (Some im', None)) \<in> set tr)}"
proof -
  from run have run': "withStoredImages_from key astr l store f 0 alerts w = (r, tr, w')"
    by (simp add: withStoredImages_def)
  from from_event_args [OF run' ev] have ti: "t = i" by simp
  from from_tags [OF run' ev] ti have lt: "i < length alerts" by simp
  from from_stop [OF run' ev stp] ti have r: "r = None" and le: "\<forall>p \<in> set tr. fst p \<le> i"
    by simp_all
  have v: "sorted_wrt (<) (map fst (visits tr))"
    unfolding visits_def using from_sorted [OF run'] from_counts [OF run']
    by (intro strict_sorted_filter_fst) (simp_all add: visits_def)
  have "set (map fst (visits tr)) =
           {j. j \<le> i \<and> (\<exists>tok im'. (j, EvGetImage tok (Some im', None)) \<in> set tr)}"
  proof (intro set_eqI iffI)
    fix j assume "j \<in> set (map fst (visits tr))"
    then obtain p where p: "p \<in> set (visits tr)" and j: "j = fst p" by auto
    from p obtain j' im' res where in_tr: "p \<in> set tr" and sp: "snd p = EvForEach j' im' res"
      by (auto simp: visits_iff)
    from in_tr sp j have m: "(j, EvForEach j' im' res) \<in> set tr" by (metis prod.collapse)
    then have "\<exists>tok. (j, EvGetImage tok (Some im', None)) \<in> set tr"
      using from_visit_iff [OF run', of j im'] by blast
    moreover from le in_tr j have "j \<le> i" by simp
    ultimately show "j \<in> {j. j \<le> i \<and> (\<exists>tok im'. (j, EvGetImage tok (Some im', None)) \<in> set tr)}"
      by blast
  next
    fix j assume "j \<in> {j. j \<le> i \<and> (\<exists>tok im'. (j, EvGetImage tok (Some im', None)) \<in> set tr)}"
    then obtain tok im' where "(j, EvGetImage tok (Some im', None)) \<in> set tr" by blast
    then obtain j' res where "(j, EvForEach j' im' res) \<in> set tr"
      using from_visit_iff [OF run', of j im'] by blast
    then have "(j, EvForEach j' im' res) \<in> set (visits tr)" by (simp add: visits_iff)
    then show "j \<in> set (map fst (visits tr))" by force
  qed
  with r ti lt le v show ?thesis by blast
qed

theorem withStoredImages_stop_witness:
  "(3, EvForEach 3 (sample_image ''b'') (Some ErrImagesDone))
      \<in> set (fst (snd (sample_run 2 sample_alerts))) \<and>
   errors_Is (Some ErrImagesDone) ErrImagesDone \<and>
   fst (sample_run 2 sample_alerts) = None \<and>
   sorted_wrt (<) (map fst (visits (fst (snd (sample_run 2 sample_alerts))))) \<and>
   set (map fst (visits (fst (snd (sample_run 2 sample_alerts))))) =
     {j. j \<le> 3 \<and> (\<exists>tok im'. (j, EvGetImage tok (Some im', None))
                                  \<in> set (fst (snd (sample_run 2 sample_alerts))))}"
proof -
  have ev: "(3, EvForEach 3 (sample_image ''b'') (Some ErrImagesDone))
      \<in> set (fst (snd (sample_run 2 sample_alerts)))"
    by (simp add: sample_run_2)
  have stp: "errors_Is (Some ErrImagesDone) ErrImagesDone"
    by (simp add: errors_Is_def)
  have "sample_run 2 sample_alerts =
      (fst (sample_run 2 sample_alerts), fst (snd (sample_run 2 sample_alerts)),
       snd (snd (sample_run 2 sample_alerts)))"
    by simp
  from withStoredImages_stop [OF this ev stp] ev stp show ?thesis by blast
qed

text \<open>C1 as stated fails: in the run above the stop comes at index 3, yet the visitor was
  invoked for the indices 1 and 3 only; the indices 0 and 2, both below 3, were skipped
  because their alerts have no image.\<close>

theorem withStoredImages_stop_counterexample:
  "fst (snd (sample_run 2 sample_alerts)) =
      [(1, EvGetImage ''a'' (Some (sample_image ''a''), None)),
       (1, EvForEach 1 (sample_image ''a'') None),
       (2, EvGetImage ''gone'' (None, Some ErrImageNotFound)),
       (3, EvGetImage ''b'' (Some (sample_image ''b''), None)),
       (3, EvForEach 3 (sample_image ''b'') (Some ErrImagesDone))] \<and>
   map fst (visits (fst (snd (sample_run 2 sample_alerts)))) = [1, 3] \<and>
   map fst (visits (fst (snd (sample_run 2 sample_alerts)))) \<noteq> [0, 1, 2, 3]"
  by (simp add: sample_run_2 visits_def)

text \<open>
  C2.  If the store's answer for the alert at index \<open>i\<close> carries an error that is neither
  "not found" nor "unavailable", the iteration returns that same error, nothing happens
  for any alert after \<open>i\<close> (no further lookup, no visit), and every visitor invocation of
  the run belongs to an index strictly below \<open>i\<close>.
\<close>

theorem withStoredImages_fail_fast:
  assumes run: "withStoredImages key astr l store f alerts w = (r, tr, w')"
    and ev: "(i, EvGetImage tok (si, Some e)) \<in> set tr"
    and nf: "\<not> errors_Is (Some e) ErrImageNotFound"
    and un: "\<not> errors_Is (Some e) ErrImagesUnavailable"
  shows "r = Some e \<and> i < length alerts \<and>
         tok = getTokenFromAnnotations key (Annotations (alerts ! i)) \<and>
         (\<forall>p \<in> set tr. fst p \<le> i \<and> (isForEach (snd p) \<longrightarrow> fst p < i))"
proof -
  from run have run': "withStoredImages_from key astr l store f 0 alerts w = (r, tr, w')"
    by (simp add: withStoredImages_def)
  from from_fail [OF run' ev nf un] from_tags [OF run' ev] from_event_args [OF run' ev]
  show ?thesis by simp
qed

theorem withStoredImages_fail_fast_witness:
  "(4, EvGetImage ''broken'' (None, Some (ErrorString ''connection refused'')))
      \<in> set (fst (snd (sample_run 9 sample_alerts))) \<and>
   \<not> errors_Is (Some (ErrorString ''connection refused'')) ErrImageNotFound \<and>
   \<not> errors_Is (Some (ErrorString ''connection refused'')) ErrImagesUnavailable \<and>
   fst (sample_run 9 sample_alerts) = Some (ErrorString ''connection refused'') \<and>
   4 < length sample_alerts \<and>
   ''broken'' = getTokenFromAnnotations sample_key (Annotations (sample_alerts ! 4))"
proof -
  have ev: "(4, EvGetImage ''broken'' (None, Some (ErrorString ''connection refused'')))
      \<in> set (fst (snd (sample_run 9 sample_alerts)))"
    by (simp add: sample_run_9)
  have nf: "\<not> errors_Is (Some (ErrorString ''connection refused'')) ErrImageNotFound"
    and un: "\<not> errors_Is (Some (ErrorString ''connection refused'')) ErrImagesUnavailable"
    by (simp_all add: errors_Is_def)
  have "sample_run 9 sample_alerts =
      (fst (sample_run 9 sample_alerts), fst (snd (sample_run 9 sample_alerts)),
       snd (snd (sample_run 9 sample_alerts)))"
    by simp
  from withStoredImages_fail_fast [OF this ev nf un] ev nf un show ?thesis by blast
qed

text \<open>
  C4.  For an alert whose annotations do not contain the reserved image-token key,
  \<^verbatim>\<open>getImage\<close> returns no image and no error (and does not query the store); and in
  any run of \<^verbatim>\<open>withStoredImages\<close> nothing is recorded for such an alert: in particular
  the visitor is never invoked with its index.
\<close>

theorem getImage_no_token:
  "(Annotations a key = None \<longrightarrow> getImage key l store a w = ((None, None), [], w)) \<and>
   (withStoredImages key astr l store f alerts w = (r, tr, w') \<and> i < length alerts \<and>
    Annotations (alerts ! i) key = None \<longrightarrow>
      (\<forall>ev. (i, ev) \<notin> set tr) \<and> (\<forall>t im res. (t, EvForEach i im res) \<notin> set tr))"
proof (intro conjI impI)
  assume "Annotations a key = None"
  then show "getImage key l store a w = ((None, None), [], w)"
    by (simp add: getImage_def getTokenFromAnnotations_def)
next
  assume a: "withStoredImages key astr l store f alerts w = (r, tr, w') \<and> i < length alerts \<and>
    Annotations (alerts ! i) key = None"
  then have run': "withStoredImages_from key astr l store f 0 alerts w = (r, tr, w')"
    by (simp add: withStoredImages_def)
  from a from_notoken [OF run', of i] show 1: "\<forall>ev. (i, ev) \<notin> set tr" by simp
  show "\<forall>t im res. (t, EvForEach i im res) \<notin> set tr"
  proof (intro allI notI)
    fix t im res assume m: "(t, EvForEach i im res) \<in> set tr"
    from from_event_args [OF run' m] have "t = i" by simp
    with m 1 show False by simp
  qed
qed

theorem getImage_no_token_witness:
  "Annotations (sample_alert None) sample_key = None \<and>
   getImage sample_key [] sample_store (sample_alert None) [] = ((None, None), [], []) \<and>
   0 < length sample_alerts \<and>
   Annotations (sample_alerts ! 0) sample_key = None \<and>
   (\<forall>t im res. (t, EvForEach 0 im res) \<notin> set (fst (snd (sample_run 9 sample_alerts))))"
proof -
  have 1: "Annotations (sample_alert None) sample_key = None"
    by (simp add: sample_alert_def)
  have 2: "0 < length sample_alerts \<and> Annotations (sample_alerts ! 0) sample_key = None"
    by (simp add: sample_alerts_def sample_alert_def)
  have 3: "sample_run 9 sample_alerts =
      (fst (sample_run 9 sample_alerts), fst (snd (sample_run 9 sample_alerts)),
       snd (snd (sample_run 9 sample_alerts)))"
    by simp
  from getImage_no_token [where a = "sample_alert None" and key = sample_key and l = "[]"
      and store = sample_store and w = "[]" and astr = sample_alertString
      and f = "sample_firstN 9" and alerts = sample_alerts
      and r = "fst (sample_run 9 sample_alerts)"
      and tr = "fst (snd (sample_run 9 sample_alerts))"
      and w' = "snd (snd (sample_run 9 sample_alerts))" and i = 0] 1 2 3
  show ?thesis by blast
qed

text \<open>
  C5.  For an alert that carries an image token, if the store's answer to the lookup of
  that token is an error that \<^verbatim>\<open>errors.Is\<close> recognises as "not found" or as
  "unavailable", \<^verbatim>\<open>getImage\<close> returns no image and no error.
\<close>

theorem getImage_absent:
  assumes "Annotations a key = Some token"
    and "store token w = ((img, err), w')"
    and "errors_Is err ErrImageNotFound \<or> errors_Is err ErrImagesUnavailable"
  shows "fst (getImage key l store a w) = (None, None)"
  using assms by (simp add: getImage_def getTokenFromAnnotations_def)

theorem getImage_absent_witness:
  "Annotations (sample_alert (Some ''off'')) sample_key = Some ''off'' \<and>
   sample_store ''off'' [] = ((None, Some ErrImagesUnavailable), []) \<and>
   errors_Is (Some ErrImagesUnavailable) ErrImagesUnavailable \<and>
   fst (getImage sample_key [] sample_store (sample_alert (Some ''off'')) []) = (None, None)"
proof -
  have 1: "Annotations (sample_alert (Some ''off'')) sample_key = Some ''off''"
    by (simp add: sample_alert_def)
  have 2: "sample_store ''off'' [] = ((None, Some ErrImagesUnavailable), [])"
    by (simp add: sample_store_def)
  have 3: "errors_Is (Some ErrImagesUnavailable) ErrImagesUnavailable"
    by (simp add: errors_Is_def)
  from getImage_absent [where a = "sample_alert (Some ''off'')" and key = sample_key
      and token = "''off''" and store = sample_store and w = "[]" and img = None
      and err = "Some ErrImagesUnavailable" and w' = "[]" and l = "[]"] 1 2 3
  show ?thesis by blast
qed

section \<open>The cleaned path never holds two separators in a row\<close>

lemma doubleSlash_append:
  "doubleSlash (xs @ ys) \<longleftrightarrow>
     doubleSlash xs \<or> doubleSlash ys \<or>
     (xs \<noteq> [] \<and> ys \<noteq> [] \<and> last xs = CHR ''/'' \<and> hd ys = CHR ''/'')"
proof (induction xs)
  case Nil
  then show ?case by simp
next
  case (Cons a xs)
  show ?case
  proof (cases xs)
    case Nil
    then show ?thesis by (cases ys) auto
  next
    case (Cons b xs')
    with Cons.IH show ?thesis by auto
  qed
qed

lemma doubleSlash_take: "\<not> doubleSlash xs \<Longrightarrow> \<not> doubleSlash (take n xs)"
  using doubleSlash_append [of "take n xs" "drop n xs"] by auto

lemma doubleSlash_nth:
  "\<not> doubleSlash xs \<Longrightarrow> Suc i < length xs \<Longrightarrow> xs ! Suc i = CHR ''/'' \<Longrightarrow> xs ! i \<noteq> CHR ''/''"
proof (induction xs arbitrary: i rule: doubleSlash.induct)
  case (1 a b cs)
  then show ?case by (cases i) auto
qed simp_all

lemma last_take_nth:
  assumes "0 < w" and "w < length xs"
  shows "last (take w xs) = xs ! (w - 1)"
proof -
  from assms have "take w xs \<noteq> []" by auto
  then have "last (take w xs) = take w xs ! (length (take w xs) - 1)" by (rule last_conv_nth)
  also from assms have "length (take w xs) = w" by simp
  also from assms have "take w xs ! (w - 1) = xs ! (w - 1)" by simp
  finally show ?thesis .
qed

lemma doubleSlash_no_slash: "CHR ''/'' \<notin> set xs \<Longrightarrow> \<not> doubleSlash xs"
  by (induction xs rule: doubleSlash.induct) auto

lemma backtrack_bounds:
  "dotdot \<le> w \<Longrightarrow> dotdot \<le> backtrack out dotdot w \<and> backtrack out dotdot w \<le> w \<and>
     (dotdot < backtrack out dotdot w \<longrightarrow> out ! backtrack out dotdot w = CHR ''/'')"
  by (induction w) (auto simp: le_Suc_eq)

lemma clean_inv_backtrack:
  assumes "clean_inv rooted out dotdot" and "dotdot < length out"
  shows "clean_inv rooted (take (backtrack out dotdot (length out - 1)) out) dotdot"
proof -
  define w where "w = backtrack out dotdot (length out - 1)"
  from assms(2) have "dotdot \<le> length out - 1" by simp
  from backtrack_bounds [OF this, of out]
  have lo: "dotdot \<le> w" and hi: "w \<le> length out - 1"
    and sl: "dotdot < w \<longrightarrow> out ! w = CHR ''/''" by (simp_all add: w_def)
  from hi assms(2) have wlt: "w < length out" by simp
  from assms(1) have nd: "\<not> doubleSlash out" by (simp add: clean_inv_def)
  have last: "last (take w out) \<noteq> CHR ''/'' \<or> (rooted \<and> w = 1)" if "0 < w"
  proof (cases "dotdot < w")
    case True
    with sl have "out ! w = CHR ''/''" by simp
    with doubleSlash_nth [OF nd, of "w - 1"] wlt that have "out ! (w - 1) \<noteq> CHR ''/''" by simp
    moreover have "last (take w out) = out ! (w - 1)"
      using that wlt by (simp add: last_take_nth)
    ultimately show ?thesis by simp
  next
    case False
    with lo have eq: "w = dotdot" by simp
    show ?thesis
    proof (cases rooted)
      case True
      with assms(1) eq show ?thesis by (simp add: clean_inv_def)
    next
      case False
      with assms(1) eq that have "out ! (w - 1) \<noteq> CHR ''/''" by (auto simp: clean_inv_def)
      moreover have "last (take w out) = out ! (w - 1)"
        using that wlt by (simp add: last_take_nth)
      ultimately show ?thesis by simp
    qed
  qed
  have "\<not> doubleSlash (take w out)" by (rule doubleSlash_take [OF nd])
  moreover have "dotdot \<le> length (take w out)" using lo wlt by simp
  moreover have "rooted \<longrightarrow> take w out \<noteq> [] \<and> dotdot = 1"
    using assms(1) lo wlt by (auto simp: clean_inv_def)
  moreover have "\<not> rooted \<longrightarrow> dotdot = 0 \<or> take w out ! (dotdot - 1) \<noteq> CHR ''/''"
    using assms(1) lo by (auto simp: clean_inv_def)
  moreover have "take w out \<noteq> [] \<and> last (take w out) = CHR ''/'' \<longrightarrow> rooted \<and> length (take w out) = 1"
    using last wlt by auto
  ultimately show ?thesis unfolding clean_inv_def w_def by blast
qed

lemma clean_inv_dotdot:
  assumes "clean_inv False out dotdot"
  shows "clean_inv False ((if 0 < length out then out @ ''/'' else out) @ ''..'')
           (length ((if 0 < length out then out @ ''/'' else out) @ ''..''))"
  using assms by (auto simp: clean_inv_def doubleSlash_append nth_append)

lemma clean_inv_elem:
  assumes "clean_inv rooted out dotdot" and "c \<noteq> CHR ''/''"
  shows "clean_inv rooted
          ((if rooted \<and> length out \<noteq> 1 \<or> \<not> rooted \<and> length out \<noteq> 0 then out @ ''/'' else out)
             @ takeWhile (\<lambda>x. x \<noteq> CHR ''/'') (c # cs)) dotdot"
proof -
  define el where "el = takeWhile (\<lambda>x. x \<noteq> CHR ''/'') (c # cs)"
  have ne: "el \<noteq> []" and ns: "CHR ''/'' \<notin> set el"
    using assms(2) by (auto simp: el_def dest: set_takeWhileD)
  then have nd: "\<not> doubleSlash el" and hd: "hd el \<noteq> CHR ''/''" and la: "last el \<noteq> CHR ''/''"
    by (metis doubleSlash_no_slash, metis hd_in_set, metis last_in_set)
  show ?thesis
    unfolding el_def [symmetric]
    using assms(1) ne nd hd la
    by (auto simp: clean_inv_def doubleSlash_append nth_append)
qed

lemma clean_loop_inv:
  "clean_inv rooted out dotdot \<Longrightarrow> \<not> doubleSlash (clean_loop rooted out dotdot rest)"
proof (induction rooted out dotdot rest rule: clean_loop.induct)
  case (1 rooted out dotdot)
  then show ?case by (simp add: clean_inv_def)
next
  case (2 rooted out dotdot c cs)
  note unf = clean_loop.simps(2) [of rooted out dotdot c cs]
  show ?case
  proof (cases "c = CHR ''/''")
    case True
    have "clean_loop rooted out dotdot (c # cs) = clean_loop rooted out dotdot cs"
      unfolding unf if_P [OF True] by (rule refl)
    with "2.IH"(1) [OF True "2.prems"] show ?thesis by (simp only: simp_thms)
  next
    case c: False
    show ?thesis
    proof (cases "c = CHR ''.'' \<and> (cs = [] \<or> hd cs = CHR ''/'')")
      case True
      have "clean_loop rooted out dotdot (c # cs) = clean_loop rooted out dotdot cs"
        unfolding unf if_not_P [OF c] if_P [OF True] by (rule refl)
      with "2.IH"(2) [OF c True "2.prems"] show ?thesis by (simp only: simp_thms)
    next
      case d: False
      show ?thesis
      proof (cases "c = CHR ''.'' \<and> hd cs = CHR ''.'' \<and> (tl cs = [] \<or> hd (tl cs) = CHR ''/'')")
        case dd: True
        show ?thesis
        proof (cases "dotdot < length out")
          case True
          have "clean_loop rooted out dotdot (c # cs) =
            clean_loop rooted (take (backtrack out dotdot (length out - 1)) out) dotdot (tl cs)"
            unfolding unf if_not_P [OF c] if_not_P [OF d] if_P [OF dd] if_P [OF True]
            by (rule refl)
          with "2.IH"(3) [OF c d dd True clean_inv_backtrack [OF "2.prems" True]]
          show ?thesis by (simp only: simp_thms)
        next
          case nb: False
          show ?thesis
          proof (cases "\<not> rooted")
            case False
            have "clean_loop rooted out dotdot (c # cs) = clean_loop rooted out dotdot (tl cs)"
              unfolding unf if_not_P [OF c] if_not_P [OF d] if_P [OF dd] if_not_P [OF nb]
                if_not_P [OF False]
              by (rule refl)
            with "2.IH"(5) [OF c d dd nb False "2.prems"] show ?thesis by (simp only: simp_thms)
          next
            case True
            with clean_inv_dotdot [of out dotdot] "2.prems"
            have inv: "clean_inv rooted ((if 0 < length out then out @ ''/'' else out) @ ''..'')
               (length ((if 0 < length out then out @ ''/'' else out) @ ''..''))" by simp
            have "clean_loop rooted out dotdot (c # cs) =
              clean_loop rooted ((if 0 < length out then out @ ''/'' else out) @ ''..'')
                (length ((if 0 < length out then out @ ''/'' else out) @ ''..'')) (tl cs)"
              unfolding unf if_not_P [OF c] if_not_P [OF d] if_P [OF dd] if_not_P [OF nb]
                if_P [OF True]
              by (rule refl)
            with "2.IH"(4) [OF c d dd nb True inv] show ?thesis by (simp only: simp_thms)
          qed
        qed
      next
        case el: False
        have "clean_loop rooted out dotdot (c # cs) =
          clean_loop rooted
          ((if rooted \<and> length out \<noteq> 1 \<or> \<not> rooted \<and> length out \<noteq> 0 then out @ ''/'' else out)
             @ takeWhile (\<lambda>x. x \<noteq> CHR ''/'') (c # cs))
          dotdot (dropWhile (\<lambda>x. x \<noteq> CHR ''/'') (c # cs))"
          unfolding unf if_not_P [OF c] if_not_P [OF d] if_not_P [OF el] by (rule refl)
        with "2.IH"(6) [OF c d el clean_inv_elem [OF "2.prems" c]]
        show ?thesis by (simp only: simp_thms)
      qed
    qed
  qed
qed

lemma path_Clean_no_doubleSlash: "\<not> doubleSlash (path_Clean p)"
proof -
  have 1: "clean_inv True ''/'' 1" by (simp add: clean_inv_def)
  have 2: "clean_inv False '''' 0" by (simp add: clean_inv_def)
  from clean_loop_inv [OF 1] clean_loop_inv [OF 2] show ?thesis
    by (simp add: path_Clean_def Let_def)
qed

lemma path_Join_no_doubleSlash: "\<not> doubleSlash (path_Join elem)"
  by (simp add: path_Join_def path_Clean_no_doubleSlash)

section \<open>Opening a stored image: claim\<close>

text \<open>
  C10.  For every path: when the initial \<^verbatim>\<open>os.Stat\<close> of the cleaned path reports that
  it does not exist or that permission is denied, \<^verbatim>\<open>openImage\<close> returns the
  distinguished \<^verbatim>\<open>ErrImageNotFound\<close>, not the file-system error, and does not try to
  open the file; otherwise the result is that of \<^verbatim>\<open>os.Open\<close> on the cleaned path:
  the open handle and no error when the file can be opened, and the error of
  \<^verbatim>\<open>os.Open\<close>, as it is, when it cannot.
\<close>

theorem openImage_result:
  "(stat (path_Clean path) w = (err, w1) \<and> (os_IsNotExist err \<or> os_IsPermission err) \<longrightarrow>
      openImage stat opn path w = (Inl ErrImageNotFound, w1) \<and> Some ErrImageNotFound \<noteq> err) \<and>
   (stat (path_Clean path) w = (err, w1) \<and> \<not> os_IsNotExist err \<and> \<not> os_IsPermission err \<and>
    opn (path_Clean path) w1 = (Inr f, w2) \<longrightarrow>
      openImage stat opn path w = (Inr f, w2)) \<and>
   (stat (path_Clean path) w = (err, w1) \<and> \<not> os_IsNotExist err \<and> \<not> os_IsPermission err \<and>
    opn (path_Clean path) w1 = (Inl e, w2) \<longrightarrow>
      openImage stat opn path w = (Inl e, w2))"
  by (auto simp: openImage_def Let_def os_IsNotExist_def os_IsPermission_def)

lemma sample_clean:
  "path_Clean ''/data/../root//img.png'' = ''/root/img.png''"
  "path_Clean ''/data/./img.png'' = ''/data/img.png''"
  "path_Clean ''/data/busy.png/'' = ''/data/busy.png''"
  by (simp_all add: path_Clean_def)

theorem openImage_result_witness:
  "sample_stat (path_Clean ''/data/../root//img.png'') 0 =
     (Some (PathError ''stat'' ''/root/img.png'' EACCES), 1) \<and>
   os_IsPermission (Some (PathError ''stat'' ''/root/img.png'' EACCES)) \<and>
   openImage sample_stat sample_open ''/data/../root//img.png'' 0 = (Inl ErrImageNotFound, 1) \<and>
   sample_stat (path_Clean ''/data/./img.png'') 0 = (None, 1) \<and>
   sample_open (path_Clean ''/data/./img.png'') 1 = (Inr ''/data/img.png'', 2) \<and>
   openImage sample_stat sample_open ''/data/./img.png'' 0 = (Inr ''/data/img.png'', 2) \<and>
   sample_stat (path_Clean ''/data/busy.png/'') 0 = (None, 1) \<and>
   sample_open (path_Clean ''/data/busy.png/'') 1 =
     (Inl (PathError ''open'' ''/data/busy.png'' (EOTHER 24)), 2) \<and>
   openImage sample_stat sample_open ''/data/busy.png/'' 0 =
     (Inl (PathError ''open'' ''/data/busy.png'' (EOTHER 24)), 2)"
proof -
  have s1: "sample_stat (path_Clean ''/data/../root//img.png'') 0 =
     (Some (PathError ''stat'' ''/root/img.png'' EACCES), 1)"
    by (simp add: sample_clean sample_stat_def)
  have p1: "os_IsPermission (Some (PathError ''stat'' ''/root/img.png'' EACCES))"
    by (simp add: os_IsPermission_def)
  have s2: "sample_stat (path_Clean ''/data/./img.png'') 0 = (None, 1)"
    by (simp add: sample_clean sample_stat_def)
  have o2: "sample_open (path_Clean ''/data/./img.png'') 1 = (Inr ''/data/img.png'', 2)"
    by (simp add: sample_clean sample_open_def)
  have s3: "sample_stat (path_Clean ''/data/busy.png/'') 0 = (None, 1)"
    by (simp add: sample_clean sample_stat_def)
  have o3: "sample_open (path_Clean ''/data/busy.png/'') 1 =
     (Inl (PathError ''open'' ''/data/busy.png'' (EOTHER 24)), 2)"
    by (simp add: sample_clean sample_open_def)
  have n: "\<not> os_IsNotExist None \<and> \<not> os_IsPermission None"
    by (simp add: os_IsNotExist_def os_IsPermission_def)
  from openImage_result [where stat = sample_stat and opn = sample_open
      and path = "''/data/../root//img.png''" and w = 0 and ?w1.0 = 1
      and err = "Some (PathError ''stat'' ''/root/img.png'' EACCES)"] s1 p1
  have a: "openImage sample_stat sample_open ''/data/../root//img.png'' 0 = (Inl ErrImageNotFound, 1)"
    by blast
  from openImage_result [where stat = sample_stat and opn = sample_open
      and path = "''/data/./img.png''" and w = 0 and ?w1.0 = 1 and err = None
      and f = "''/data/img.png''" and ?w2.0 = 2] s2 o2 n
  have b: "openImage sample_stat sample_open ''/data/./img.png'' 0 = (Inr ''/data/img.png'', 2)"
    by blast
  from openImage_result [where stat = sample_stat and opn = sample_open
      and path = "''/data/busy.png/''" and w = 0 and ?w1.0 = 1 and err = None
      and e = "PathError ''open'' ''/data/busy.png'' (EOTHER 24)" and ?w2.0 = 2] s3 o3 n
  have c: "openImage sample_stat sample_open ''/data/busy.png/'' 0 =
     (Inl (PathError ''open'' ''/data/busy.png'' (EOTHER 24)), 2)"
    by blast
  from s1 p1 a s2 o2 b s3 o3 c show ?thesis by blast
qed

section \<open>The receiver validation error: claim\<close>

lemma of_char_eq_iff_nat: "(of_char c :: nat) = of_char d \<longleftrightarrow> c = d"
  by (metis char_of_char)

lemma quote_loop_plain: "plain s \<Longrightarrow> quote_loop tbl s = s"
proof (induction s)
  case Nil
  then show ?case by simp
next
  case (Cons c cs)
  then have r: "0x20 \<le> (of_char c :: nat)" "(of_char c :: nat) \<le> 0x7E"
    and q: "c \<noteq> dquote" "c \<noteq> backslash" and rest: "plain cs"
    by (simp_all add: plain_def)
  from r have small: "\<not> (of_char c :: nat) \<ge> 0x80" and ne: "(of_char c :: nat) \<noteq> RuneError"
    by (simp_all add: RuneError_def)
  from r q have esc: "appendEscapedRune tbl (of_char c) = [c]"
    by (simp add: appendEscapedRune_def IsPrint_def AppendRune_def of_char_eq_iff_nat)
  from small ne esc Cons.IH [OF rest] show ?case by simp
qed

text \<open>
  C7, as amended.  The string form of a receiver validation error is
  \<^verbatim>\<open>failed to validate receiver <name> of type <type>: <reason>\<close>, where the name and
  the type are written as \<^verbatim>\<open>%q\<close> writes them, \<^verbatim>\<open>: <cause>\<close> is appended exactly
  when a cause is present, and the name segment (with its blank) is omitted exactly when
  the name is empty.  What \<^verbatim>\<open>%q\<close> writes is the string itself between double quotes
  whenever the string consists of printable ASCII characters other than the double quote
  and the backslash.
\<close>

theorem receiverInitError_Error_form:
  "receiverInitError_Error tbl txt e =
     ''failed to validate receiver ''
       @ (if Name (Cfg e) = '''' then '''' else strconv_Quote tbl (Name (Cfg e)) @ '' '')
       @ ''of type '' @ strconv_Quote tbl (Type (Cfg e)) @ '': '' @ Reason e
       @ (case Err e of None \<Rightarrow> '''' | Some c \<Rightarrow> '': '' @ txt c) \<and>
   (plain s \<longrightarrow> strconv_Quote tbl s = [dquote] @ s @ [dquote])"
  by (simp add: receiverInitError_Error_def Let_def strconv_Quote_def quote_loop_plain
      split: option.splits)

text \<open>The error built with name \<^verbatim>\<open>x\<close>, type \<^verbatim>\<open>y\<close>, reason \<^verbatim>\<open>missing url\<close> and
  no cause.\<close>

theorem receiverInitError_Error_form_witness:
  "plain ''x'' \<and> plain ''y'' \<and>
   receiverInitError_Error sample_table sample_errText
     \<lparr>Reason = ''missing url'', Err = None, Cfg = \<lparr>Name = ''x'', Type = ''y''\<rparr>\<rparr> =
   ''failed to validate receiver '' @ [dquote] @ ''x'' @ [dquote] @ '' of type ''
     @ [dquote] @ ''y'' @ [dquote] @ '': missing url''"
proof -
  have x: "plain ''x''" and y: "plain ''y''"
    by (simp_all add: plain_def dquote_def backslash_def)
  from receiverInitError_Error_form [of sample_table sample_errText
      "\<lparr>Reason = ''missing url'', Err = None, Cfg = \<lparr>Name = ''x'', Type = ''y''\<rparr>\<rparr>" "''x''"] x
  have 1: "receiverInitError_Error sample_table sample_errText
     \<lparr>Reason = ''missing url'', Err = None, Cfg = \<lparr>Name = ''x'', Type = ''y''\<rparr>\<rparr> =
     ''failed to validate receiver '' @ strconv_Quote sample_table ''x'' @ '' of type ''
       @ strconv_Quote sample_table ''y'' @ '': missing url''"
    and 2: "strconv_Quote sample_table ''x'' = [dquote] @ ''x'' @ [dquote]"
    by simp_all
  from receiverInitError_Error_form [of sample_table sample_errText _ "''y''"] y
  have 3: "strconv_Quote sample_table ''y'' = [dquote] @ ''y'' @ [dquote]"
    by simp
  from x y 1 show ?thesis unfolding 2 3 by simp
qed

text \<open>C7 as stated fails for a receiver named \<^verbatim>\<open>a"b\<close>: the name appears as
  \<^verbatim>\<open>"a\"b"\<close>, not as the name between two double quotes.\<close>

theorem receiverInitError_Error_counterexample:
  "receiverInitError_Error sample_table sample_errText
     \<lparr>Reason = ''missing url'', Err = None,
      Cfg = \<lparr>Name = [CHR ''a'', dquote, CHR ''b''], Type = ''y''\<rparr>\<rparr> =
   ''failed to validate receiver '' @ [dquote, CHR ''a'', backslash, dquote, CHR ''b'', dquote]
     @ '' of type '' @ [dquote] @ ''y'' @ [dquote] @ '': missing url'' \<and>
   receiverInitError_Error sample_table sample_errText
     \<lparr>Reason = ''missing url'', Err = None,
      Cfg = \<lparr>Name = [CHR ''a'', dquote, CHR ''b''], Type = ''y''\<rparr>\<rparr> \<noteq>
   ''failed to validate receiver '' @ [dquote] @ [CHR ''a'', dquote, CHR ''b''] @ [dquote]
     @ '' of type '' @ [dquote] @ ''y'' @ [dquote] @ '': missing url''"
  by (simp add: receiverInitError_Error_def strconv_Quote_def appendEscapedRune_def
      IsPrint_def AppendRune_def dquote_def backslash_def RuneError_def char_of_eq_iff)

section \<open>Sending an HTTP request: claims\<close>

lemma sdiv_100_eq_2: "(c :: int) sdiv 100 = 2 \<longleftrightarrow> 200 \<le> c \<and> c \<le> 299"
proof (cases "0 \<le> c")
  case True
  then have "c sdiv 100 = c div 100" by (simp add: signed_divide_int_def sgn_if)
  then show ?thesis by auto
next
  case False
  then have "c sdiv 100 = - ((- c) div 100)" by (simp add: signed_divide_int_def sgn_if)
  moreover from False have "0 \<le> (- c) div 100" by simp
  ultimately show ?thesis using False by auto
qed

lemma Header_Set_other:
  "key \<noteq> k \<Longrightarrow> map_of (Header_Set h k v) key = map_of h key"
  by (induction h) (auto simp: Header_Set_def)

lemma Header_Set_same: "map_of (Header_Set h k v) k = Some [v]"
  by (simp add: Header_Set_def)

text \<open>
  C3.  For every call of \<^verbatim>\<open>sendHTTPRequest\<close> that receives a response whose body is
  read to its end: when the status code is in the 2xx class the call returns the bytes of
  the body and no error; for every other status code it returns no body and the error
  whose text is \<^verbatim>\<open>failed to send HTTP request - status code\<close> followed by the decimal
  status code, a text in which the body has no part, while the whole body is passed to
  the logger in the warning \<^verbatim>\<open>HTTP request failed\<close>.
\<close>

theorem sendHTTPRequest_status:
  assumes "buildRequest url cfg = Inr request"
    and "doer request w = (Inr resp, w1)"
    and "RespBody resp = Inr B"
  shows "sendHTTPRequest doer url cfg lg w =
     (if 200 \<le> StatusCode resp \<and> StatusCode resp \<le> 299 then
        ((Some B, None),
         EvDo request
           # EvLog lg LvlDebug ''sending HTTP request succeeded''
               [(''url'', S (URL_String (URL request))), (''statusCode'', S (Status resp))]
           # closeBody lg resp,
         w1)
      else
        ((None,
          Some (ErrorString (''failed to send HTTP request - status code ''
                               @ itoa (StatusCode resp)))),
         EvDo request
           # EvLog lg LvlWarn ''HTTP request failed''
               [(''url'', S (URL_String (URL request))), (''statusCode'', S (Status resp)),
                (''body'', S B)]
           # closeBody lg resp,
         w1))"
  using assms by (simp add: sendHTTPRequest_def sdiv_100_eq_2)

lemmas url_eval = url_Parse_def parse_def Cut_def getScheme_def stringContainsCTLByte_def
  isLower_def isUpper_def isDigit_def toLower_def HasSuffix_def HasPrefix_def Index_def
  parseAuthority_def parseHost_def LastIndex_def validOptionalPort_def unescape_def
  shouldEscape_def setPath_def escape_def escape_byte_def emptyURL_def Let_def
  URL_String_def EscapedPath_def validEncoded_def

lemma sample_url_String:
  "URL_String (sample_url ''/ok'') = ''http://localhost:3000/ok''"
  "URL_String (sample_url ''/hook'') = ''http://localhost:3000/hook''"
  by (simp_all add: url_eval sample_url_def)

lemma sample_url_Parse:
  "url_Parse ''http://localhost:3000/ok'' = Inr (sample_url ''/ok'')"
  "url_Parse ''http://localhost:3000/hook'' = Inr (sample_url ''/hook'')"
  by (simp_all add: url_eval sample_url_def)

lemma sample_removeEmptyPort: "removeEmptyPort ''localhost:3000'' = ''localhost:3000''"
  by (simp add: removeEmptyPort_def HasSuffix_def)

lemma sample_basicAuth: "basicAuth ''u'' ''p'' = ''dTpw''"
  by (simp add: basicAuth_def encodeStd_def)

lemma sample_url_Host:
  "Host (sample_url p) = ''localhost:3000''"
  "(sample_url p)\<lparr>Host := ''localhost:3000''\<rparr> = sample_url p"
  "Path (sample_url p) = p"
  by (simp_all add: sample_url_def)

lemma sample_buildRequest:
  "buildRequest (sample_url ''/ok'') (sample_cfg '''' ''p'') =
     Inr \<lparr>Method = ''POST'', URL = sample_url ''/ok'',
          Header = [(''User-Agent'', [''Grafana'']), (''Content-Type'', [''application/json''])],
          Body = Some ''{}''\<rparr>"
  "buildRequest (sample_url ''/hook'') (sample_cfg ''u'' ''p'') =
     Inr \<lparr>Method = ''POST'', URL = sample_url ''/hook'',
          Header = [(''User-Agent'', [''Grafana'']), (''Content-Type'', [''application/json'']),
                    (''Authorization'', [''Basic dTpw''])],
          Body = Some ''{}''\<rparr>"
  by (simp_all add: buildRequest_def NewRequestWithContext_def sample_url_String
      sample_url_Parse sample_cfg_def SetBasicAuth_def Header_Set_def sample_basicAuth
      sample_removeEmptyPort sample_url_Host Let_def)

lemma itoa_500: "itoa 500 = ''500''"
  by (simp add: itoa_def decimal.simps [of 500] decimal.simps [of 50] decimal.simps [of 5]
      char_of_eq_iff)

text \<open>The sample endpoint answering 200 with the body \<^verbatim>\<open>done\<close>, and answering 500.\<close>

theorem sendHTTPRequest_status_witness:
  "fst (sendHTTPRequest sample_doer (sample_url ''/ok'') (sample_cfg '''' ''p'') [] []) =
     (Some ''done'', None) \<and>
   fst (sendHTTPRequest sample_doer (sample_url ''/hook'') (sample_cfg ''u'' ''p'') [] []) =
     (None, Some (ErrorString ''failed to send HTTP request - status code 500'')) \<and>
   EvLog [] LvlWarn ''HTTP request failed''
     [(''url'', S ''http://localhost:3000/hook''),
      (''statusCode'', S ''500 Internal Server Error''),
      (''body'', S ''stack trace of the remote service'')]
     \<in> set (fst (snd (sendHTTPRequest sample_doer (sample_url ''/hook'')
                          (sample_cfg ''u'' ''p'') [] [])))"
proof -
  let ?ok = "\<lparr>StatusCode = 200, Status = ''200 OK'', RespBody = Inr ''done'',
                BodyClose = None\<rparr>"
  let ?ko = "\<lparr>StatusCode = 500, Status = ''500 Internal Server Error'',
                RespBody = Inr ''stack trace of the remote service'', BodyClose = None\<rparr>"
  have d1: "sample_doer \<lparr>Method = ''POST'', URL = sample_url ''/ok'',
          Header = [(''User-Agent'', [''Grafana'']), (''Content-Type'', [''application/json''])],
          Body = Some ''{}''\<rparr> [] =
       (Inr ?ok, [\<lparr>Method = ''POST'', URL = sample_url ''/ok'',
          Header = [(''User-Agent'', [''Grafana'']), (''Content-Type'', [''application/json''])],
          Body = Some ''{}''\<rparr>])"
    by (simp add: sample_doer_def sample_url_Host)
  have d2: "sample_doer \<lparr>Method = ''POST'', URL = sample_url ''/hook'',
          Header = [(''User-Agent'', [''Grafana'']), (''Content-Type'', [''application/json'']),
                    (''Authorization'', [''Basic dTpw''])],
          Body = Some ''{}''\<rparr> [] =
       (Inr ?ko, [\<lparr>Method = ''POST'', URL = sample_url ''/hook'',
          Header = [(''User-Agent'', [''Grafana'']), (''Content-Type'', [''application/json'']),
                    (''Authorization'', [''Basic dTpw''])],
          Body = Some ''{}''\<rparr>])"
    by (simp add: sample_doer_def sample_url_Host)
  have b1: "RespBody ?ok = Inr ''done''" and b2: "RespBody ?ko = Inr ''stack trace of the remote service''"
    by simp_all
  note r1 = sendHTTPRequest_status [where doer = sample_doer and lg = "[]", OF sample_buildRequest(1) d1 b1]
  note r2 = sendHTTPRequest_status [where doer = sample_doer and lg = "[]", OF sample_buildRequest(2) d2 b2]
  show ?thesis
    by (simp add: r1 r2 itoa_500 sample_url_String closeBody_def)
qed

lemma buildRequest_Authorization:
  assumes "buildRequest url cfg = Inr request"
  shows "map_of (Header request) ''Authorization'' =
     (if user cfg \<noteq> '''' \<and> password cfg \<noteq> ''''
      then Some [''Basic '' @ basicAuth (user cfg) (password cfg)] else None)"
  using assms
  by (auto simp: buildRequest_def NewRequestWithContext_def Let_def SetBasicAuth_def
      Header_Set_other Header_Set_same split: sum.splits)

text \<open>
  C6.  Whenever \<^verbatim>\<open>sendHTTPRequest\<close> hands a request to the HTTP client, that request
  is the one built from the URL and the configuration, and its \<^verbatim>\<open>Authorization\<close>
  header is \<^verbatim>\<open>Basic\<close> followed by the base64 encoding of \<^verbatim>\<open>user:password\<close> when both
  the user name and the password are non-empty; when either is empty the request has no
  \<^verbatim>\<open>Authorization\<close> header.
\<close>

theorem sendHTTPRequest_basic_auth:
  assumes "sendHTTPRequest doer url cfg lg w = (res, tr, w')"
    and "EvDo request \<in> set tr"
  shows "buildRequest url cfg = Inr request \<and>
     map_of (Header request) ''Authorization'' =
       (if user cfg \<noteq> '''' \<and> password cfg \<noteq> ''''
        then Some [''Basic '' @ basicAuth (user cfg) (password cfg)] else None)"
proof -
  from assms have "buildRequest url cfg = Inr request"
    by (auto simp: sendHTTPRequest_def closeBody_def
        split: sum.splits prod.splits if_splits option.splits)
  with buildRequest_Authorization [OF this] show ?thesis by simp
qed

theorem sendHTTPRequest_basic_auth_witness:
  "EvDo \<lparr>Method = ''POST'', URL = sample_url ''/hook'',
          Header = [(''User-Agent'', [''Grafana'']), (''Content-Type'', [''application/json'']),
                    (''Authorization'', [''Basic dTpw''])],
          Body = Some ''{}''\<rparr>
     \<in> set (fst (snd (sendHTTPRequest sample_doer (sample_url ''/hook'')
                          (sample_cfg ''u'' ''p'') [] []))) \<and>
   map_of [(''User-Agent'', [''Grafana'']), (''Content-Type'', [''application/json'']),
           (''Authorization'', [''Basic dTpw''])] ''Authorization'' =
     Some [''Basic '' @ basicAuth ''u'' ''p''] \<and>
   EvDo \<lparr>Method = ''POST'', URL = sample_url ''/ok'',
          Header = [(''User-Agent'', [''Grafana'']), (''Content-Type'', [''application/json''])],
          Body = Some ''{}''\<rparr>
     \<in> set (fst (snd (sendHTTPRequest sample_doer (sample_url ''/ok'')
                          (sample_cfg '''' ''p'') [] []))) \<and>
   map_of [(''User-Agent'', [''Grafana'']), (''Content-Type'', [''application/json''])]
     ''Authorization'' = None"
proof -
  have e1: "EvDo \<lparr>Method = ''POST'', URL = sample_url ''/hook'',
          Header = [(''User-Agent'', [''Grafana'']), (''Content-Type'', [''application/json'']),
                    (''Authorization'', [''Basic dTpw''])],
          Body = Some ''{}''\<rparr>
     \<in> set (fst (snd (sendHTTPRequest sample_doer (sample_url ''/hook'')
                          (sample_cfg ''u'' ''p'') [] [])))"
    by (simp add: sendHTTPRequest_def sample_buildRequest sample_doer_def sample_url_Host)
  have e2: "EvDo \<lparr>Method = ''POST'', URL = sample_url ''/ok'',
          Header = [(''User-Agent'', [''Grafana'']), (''Content-Type'', [''application/json''])],
          Body = Some ''{}''\<rparr>
     \<in> set (fst (snd (sendHTTPRequest sample_doer (sample_url ''/ok'')
                          (sample_cfg '''' ''p'') [] [])))"
    by (simp add: sendHTTPRequest_def sample_buildRequest sample_doer_def sample_url_Host)
  have c: "sendHTTPRequest sample_doer u c [] [] =
      (fst (sendHTTPRequest sample_doer u c [] []),
       fst (snd (sendHTTPRequest sample_doer u c [] [])),
       snd (snd (sendHTTPRequest sample_doer u c [] [])))" for u c
    by simp
  from sendHTTPRequest_basic_auth [OF c e1]
  have a1: "map_of [(''User-Agent'', [''Grafana'']), (''Content-Type'', [''application/json'']),
           (''Authorization'', [''Basic dTpw''])] ''Authorization'' =
     Some [''Basic '' @ basicAuth ''u'' ''p'']"
    by (simp add: sample_cfg_def)
  from sendHTTPRequest_basic_auth [OF c e2]
  have a2: "map_of [(''User-Agent'', [''Grafana'']), (''Content-Type'', [''application/json''])]
     ''Authorization'' = None"
    by (simp add: sample_cfg_def)
  from e1 a1 e2 a2 show ?thesis by blast
qed

section \<open>Joining a path to a URL: claim\<close>

lemma doubleSlash_Cons: "doubleSlash xs \<Longrightarrow> doubleSlash (x # xs)"
  by (cases xs) auto

lemma upperhex_not_slash: "upperhex n \<noteq> CHR ''/''"
proof -
  have "n mod 16 < length ''0123456789ABCDEF''" by simp
  then have "upperhex n \<in> set ''0123456789ABCDEF''"
    unfolding upperhex_def by (rule nth_mem)
  then show ?thesis by auto
qed

lemma escape_byte_slash:
  "\<not> doubleSlash (escape_byte mode c) \<and> escape_byte mode c \<noteq> [] \<and>
   (hd (escape_byte mode c) = CHR ''/'' \<longrightarrow> c = CHR ''/'') \<and>
   (last (escape_byte mode c) = CHR ''/'' \<longrightarrow> c = CHR ''/'')"
  using upperhex_not_slash by (simp add: escape_byte_def)

lemma escape_hd_slash:
  assumes "escape s mode \<noteq> []" and "hd (escape s mode) = CHR ''/''"
  shows "s \<noteq> [] \<and> hd s = CHR ''/''"
proof (cases s)
  case Nil
  with assms(1) show ?thesis by (simp add: escape_def)
next
  case (Cons c cs)
  have e: "escape s mode = escape_byte mode c @ escape cs mode"
    by (simp add: Cons escape_def)
  have ne: "escape_byte mode c \<noteq> []" using escape_byte_slash by blast
  from assms(2) ne have "hd (escape_byte mode c) = CHR ''/''"
    unfolding e by (simp add: hd_append)
  with escape_byte_slash [of mode c] have "c = CHR ''/''" by blast
  with Cons show ?thesis by simp
qed

lemma escape_doubleSlash: "doubleSlash (escape s mode) \<Longrightarrow> doubleSlash s"
proof (induction s)
  case Nil
  then show ?case by (simp add: escape_def)
next
  case (Cons c cs)
  have e: "escape (c # cs) mode = escape_byte mode c @ escape cs mode"
    by (simp add: escape_def)
  from Cons.prems [unfolded e doubleSlash_append] escape_byte_slash [of mode c]
  consider "doubleSlash (escape cs mode)"
    | "escape cs mode \<noteq> []" "c = CHR ''/''" "hd (escape cs mode) = CHR ''/''"
    by blast
  then show ?case
  proof cases
    case 1
    then show ?thesis using Cons.IH by (simp add: doubleSlash_Cons)
  next
    case 2
    from escape_hd_slash [OF 2(1,3)] 2(2) show ?thesis by (cases cs) auto
  qed
qed

lemma ishex_not_slash: "ishex c \<Longrightarrow> c \<noteq> CHR ''/''"
  by (auto simp: ishex_def isDigit_def)

lemma unescape_check_percent:
  assumes "unescape_check mode (CHR ''%'' # cs) = None"
  shows "\<exists>h l rest. cs = h # l # rest \<and> ishex h \<and> ishex l \<and> unescape_check mode rest = None"
proof (cases cs)
  case Nil
  with assms show ?thesis by simp
next
  case (Cons h t)
  show ?thesis
  proof (cases t)
    case Nil
    with Cons assms show ?thesis by simp
  next
    case (Cons l rest)
    with \<open>cs = h # t\<close> assms show ?thesis by (simp split: if_splits)
  qed
qed

lemma unescape_check_other:
  assumes "c \<noteq> CHR ''%''" and "unescape_check mode (c # cs) = None"
  shows "unescape_check mode cs = None"
  using assms by (simp split: if_splits)

lemma unescape_decode_percent:
  "unescape_decode mode (CHR ''%'' # h # l # rest) =
     char_of (unhex h * 16 + unhex l) # unescape_decode mode rest"
  by simp

lemma unescape_decode_slash:
  "unescape_decode mode (CHR ''/'' # cs) = CHR ''/'' # unescape_decode mode cs"
  by simp

lemma unescape_decode_other:
  "c \<noteq> CHR ''%'' \<Longrightarrow> \<exists>d. unescape_decode mode (c # cs) = d # unescape_decode mode cs"
  by simp

lemma unescape_doubleSlash:
  "unescape_check mode s = None \<Longrightarrow> doubleSlash s \<Longrightarrow> doubleSlash (unescape_decode mode s)"
proof (induction "length s" arbitrary: s rule: less_induct)
  case less
  from less.prems(2) obtain c cs where s: "s = c # cs" by (cases s) auto
  show ?case
  proof (cases "c = CHR ''%''")
    case True
    from less.prems(1) have "unescape_check mode (CHR ''%'' # cs) = None"
      unfolding s True .
    from unescape_check_percent [OF this]
    obtain h l rest where cs: "cs = h # l # rest" and hex: "ishex h" "ishex l"
      and chk: "unescape_check mode rest = None" by blast
    from less.prems(2) s True cs ishex_not_slash [OF hex(1)] ishex_not_slash [OF hex(2)]
    have d: "doubleSlash rest" by (cases rest) auto
    have "length rest < length s" using s cs by simp
    from less.hyps [OF this chk d] show ?thesis
      unfolding s True cs unescape_decode_percent by (rule doubleSlash_Cons)
  next
    case np: False
    from unescape_check_other [OF np] less.prems(1) s
    have chk: "unescape_check mode cs = None" by simp
    show ?thesis
    proof (cases "doubleSlash cs")
      case True
      have "length cs < length s" using s by simp
      from less.hyps [OF this chk True] have "doubleSlash (unescape_decode mode cs)" .
      moreover from unescape_decode_other [OF np] obtain d
        where "unescape_decode mode (c # cs) = d # unescape_decode mode cs" by blast
      ultimately show ?thesis unfolding s by (simp only: doubleSlash_Cons)
    next
      case False
      with less.prems(2) s obtain cs' where c: "c = CHR ''/''" and cs: "cs = CHR ''/'' # cs'"
        by (cases cs) auto
      show ?thesis unfolding s c cs unescape_decode_slash by simp
    qed
  qed
qed

lemma EscapedPath_no_doubleSlash:
  assumes "\<not> doubleSlash (Path u)"
  shows "\<not> doubleSlash (EscapedPath u)"
proof (cases "RawPath u \<noteq> '''' \<and> validEncoded (RawPath u) encodePath \<and>
    unescape (RawPath u) encodePath = Inr (Path u)")
  case True
  then have chk: "unescape_check encodePath (RawPath u) = None"
    and dec: "unescape_decode encodePath (RawPath u) = Path u"
    by (auto simp: unescape_def split: option.splits)
  from unescape_doubleSlash [OF chk] dec assms have "\<not> doubleSlash (RawPath u)" by auto
  with True show ?thesis by (simp add: EscapedPath_def)
next
  case False
  with assms escape_doubleSlash [of "Path u" encodePath] show ?thesis
    by (auto simp: EscapedPath_def)
qed


lemma localhost_Parse:
  "url_Parse ''http://localhost'' = Inr (emptyURL\<lparr>Scheme := ''http'', Host := ''localhost''\<rparr>)"
  "url_Parse ''http://localhost/'' =
     Inr (emptyURL\<lparr>Scheme := ''http'', Host := ''localhost'', Path := ''/''\<rparr>)"
  by (simp_all add: url_eval)

lemma bracket_Parse:
  "url_Parse ''http://[::1'' =
     Inl (URLError ''parse'' ''http://[::1''
            (ErrorString (''missing '' @ [CHR 0x27] @ '']'' @ [CHR 0x27] @ '' in host'')))"
  by (simp add: url_eval)

lemma sample_Join:
  "path_Join ['''', ''/a/b''] = ''/a/b''"
  "path_Join [''/'', ''/a/b''] = ''/a/b''"
  by (simp_all add: path_Join_def join_step_def path_Clean_def)

lemma localhost_String:
  "URL_String (emptyURL\<lparr>Scheme := ''http'', Host := ''localhost'', Path := ''/a/b''\<rparr>) =
     ''http://localhost/a/b''"
  by (simp add: url_eval)

declare elems.simps [simp del]


lemma elems_Nil [simp]: "elems [] = []"
  by (simp add: elems.simps)

lemma elems_slash [simp]: "elems (CHR ''/'' # cs) = elems cs"
  by (simp add: elems.simps)

lemma elems_elem:
  "c \<noteq> CHR ''/'' \<Longrightarrow> elems (c # cs) =
     takeWhile (\<lambda>x. x \<noteq> CHR ''/'') (c # cs) # elems (dropWhile (\<lambda>x. x \<noteq> CHR ''/'') (c # cs))"
  by (simp add: elems.simps)

lemma elems_nonempty: "e \<in> set (elems s) \<Longrightarrow> e \<noteq> []"
proof (induction s rule: elems.induct)
  case 1
  then show ?case by simp
next
  case (2 c cs)
  show ?case
  proof (cases "c = CHR ''/''")
    case True
    with 2 show ?thesis by simp
  next
    case False
    with "2.prems" have "e = takeWhile (\<lambda>x. x \<noteq> CHR ''/'') (c # cs)
        \<or> e \<in> set (elems (dropWhile (\<lambda>x. x \<noteq> CHR ''/'') (c # cs)))"
      by (simp add: elems_elem)
    with False "2.IH"(2) show ?thesis by auto
  qed
qed

lemma takeWhile_append_slash:
  "takeWhile (\<lambda>x. x \<noteq> CHR ''/'') (xs @ CHR ''/'' # ys) = takeWhile (\<lambda>x. x \<noteq> CHR ''/'') xs"
  by (induction xs) auto

lemma dropWhile_append_slash:
  "dropWhile (\<lambda>x. x \<noteq> CHR ''/'') (xs @ CHR ''/'' # ys) =
     dropWhile (\<lambda>x. x \<noteq> CHR ''/'') xs @ CHR ''/'' # ys"
  by (induction xs) auto

lemma elems_append: "elems (p @ CHR ''/'' # a) = elems p @ elems a"
proof (induction p rule: elems.induct)
  case 1
  then show ?case by simp
next
  case (2 c cs)
  show ?case
  proof (cases "c = CHR ''/''")
    case True
    with 2 show ?thesis by simp
  next
    case False
    have "elems ((c # cs) @ CHR ''/'' # a) =
        takeWhile (\<lambda>x. x \<noteq> CHR ''/'') ((c # cs) @ CHR ''/'' # a)
          # elems (dropWhile (\<lambda>x. x \<noteq> CHR ''/'') ((c # cs) @ CHR ''/'' # a))"
      using False elems_elem [of c "cs @ CHR ''/'' # a"] by simp
    also have "\<dots> = takeWhile (\<lambda>x. x \<noteq> CHR ''/'') (c # cs)
          # elems (dropWhile (\<lambda>x. x \<noteq> CHR ''/'') (c # cs) @ CHR ''/'' # a)"
      by (simp only: takeWhile_append_slash dropWhile_append_slash)
    also have "\<dots> = takeWhile (\<lambda>x. x \<noteq> CHR ''/'') (c # cs)
          # (elems (dropWhile (\<lambda>x. x \<noteq> CHR ''/'') (c # cs)) @ elems a)"
      using "2.IH"(2) [OF False] by simp
    also have "\<dots> = elems (c # cs) @ elems a"
      using False by (simp add: elems_elem)
    finally show ?thesis .
  qed
qed

lemma element_dot:
  assumes "c = CHR ''.'' \<and> (cs = [] \<or> hd cs = CHR ''/'')"
  shows "takeWhile (\<lambda>x. x \<noteq> CHR ''/'') (c # cs) = ''.''"
  using assms by (cases cs) auto

lemma element_dotdot:
  assumes "\<not> (c = CHR ''.'' \<and> (cs = [] \<or> hd cs = CHR ''/''))"
    and "c = CHR ''.'' \<and> hd cs = CHR ''.'' \<and> (tl cs = [] \<or> hd (tl cs) = CHR ''/'')"
  shows "takeWhile (\<lambda>x. x \<noteq> CHR ''/'') (c # cs) = ''..''"
proof -
  from assms obtain d ds where cs: "cs = d # ds" by (cases cs) auto
  with assms(2) have d: "d = CHR ''.''" and ds: "ds = [] \<or> hd ds = CHR ''/''" by auto
  from assms(2) cs d ds show ?thesis by (cases ds) auto
qed

lemma clean_loop_dotfree:
  "''.'' \<notin> set (elems rest) \<Longrightarrow> ''..'' \<notin> set (elems rest) \<Longrightarrow>
     clean_loop rooted out dotdot rest = foldl (addElem rooted) out (elems rest)"
proof (induction rooted out dotdot rest rule: clean_loop.induct)
  case (1 rooted out dotdot)
  then show ?case by simp
next
  case (2 rooted out dotdot c cs)
  note unf = clean_loop.simps(2) [of rooted out dotdot c cs]
  show ?case
  proof (cases "c = CHR ''/''")
    case True
    have "clean_loop rooted out dotdot (c # cs) = clean_loop rooted out dotdot cs"
      unfolding unf if_P [OF True] by (rule refl)
    moreover from "2.prems" True have "''.'' \<notin> set (elems cs)" "''..'' \<notin> set (elems cs)"
      by simp_all
    ultimately show ?thesis using "2.IH"(1) [OF True] True by simp
  next
    case c: False
    let ?el = "takeWhile (\<lambda>x. x \<noteq> CHR ''/'') (c # cs)"
    let ?rest = "dropWhile (\<lambda>x. x \<noteq> CHR ''/'') (c # cs)"
    have el: "elems (c # cs) = ?el # elems ?rest" using c by (rule elems_elem)
    have ae: "addElem rooted out ?el =
        (if rooted \<and> length out \<noteq> 1 \<or> \<not> rooted \<and> length out \<noteq> 0 then out @ ''/'' else out)
          @ ?el"
      by (simp only: addElem_def)
    from el "2.prems" have nd: "?el \<noteq> ''.''" "?el \<noteq> ''..''"
      and r: "''.'' \<notin> set (elems ?rest)" "''..'' \<notin> set (elems ?rest)"
      by auto
    from nd(1) element_dot [of c cs]
    have d: "\<not> (c = CHR ''.'' \<and> (cs = [] \<or> hd cs = CHR ''/''))" by blast
    from nd(2) element_dotdot [OF d]
    have dd: "\<not> (c = CHR ''.'' \<and> hd cs = CHR ''.'' \<and> (tl cs = [] \<or> hd (tl cs) = CHR ''/''))"
      by blast
    have "clean_loop rooted out dotdot (c # cs) =
        clean_loop rooted
          ((if rooted \<and> length out \<noteq> 1 \<or> \<not> rooted \<and> length out \<noteq> 0 then out @ ''/'' else out)
             @ ?el)
          dotdot ?rest"
      unfolding unf if_not_P [OF c] if_not_P [OF d] if_not_P [OF dd] by (rule refl)
    also have "\<dots> = foldl (addElem rooted) (addElem rooted out ?el) (elems ?rest)"
      unfolding ae by (rule "2.IH"(6) [OF c d dd r])
    also have "\<dots> = foldl (addElem rooted) out (elems (c # cs))"
      by (simp only: el foldl_Cons)
    finally show ?thesis .
  qed
qed

lemma foldl_addElem:
  assumes "rooted \<and> length out \<noteq> 1 \<or> \<not> rooted \<and> length out \<noteq> 0" and "out \<noteq> []"
  shows "foldl (addElem rooted) out es = out @ concat (map (\<lambda>x. CHR ''/'' # x) es)"
  using assms
proof (induction es arbitrary: out)
  case Nil
  then show ?case by simp
next
  case (Cons e es)
  from Cons.prems have a: "addElem rooted out e = out @ ''/'' @ e"
    by (auto simp: addElem_def)
  have "rooted \<and> length (out @ ''/'' @ e) \<noteq> 1 \<or> \<not> rooted \<and> length (out @ ''/'' @ e) \<noteq> 0"
    using Cons.prems(2) by (cases out) auto
  from Cons.IH [OF this] a show ?case by simp
qed

lemma foldl_addElem_start:
  assumes "\<forall>e \<in> set es. e \<noteq> []"
  shows "foldl (addElem True) ''/'' es = ''/'' @ joinElems es"
    and "foldl (addElem False) '''' es = joinElems es"
proof -
  show "foldl (addElem True) ''/'' es = ''/'' @ joinElems es"
  proof (cases es)
    case Nil
    then show ?thesis by simp
  next
    case (Cons e es')
    with assms have "e \<noteq> []" by simp
    then have "True \<and> length (''/'' @ e) \<noteq> 1 \<or> \<not> True \<and> length (''/'' @ e) \<noteq> 0" by simp
    from foldl_addElem [OF this, of es'] Cons show ?thesis by (simp add: addElem_def)
  qed
  show "foldl (addElem False) '''' es = joinElems es"
  proof (cases es)
    case Nil
    then show ?thesis by simp
  next
    case (Cons e es')
    with assms have ne: "e \<noteq> []" by simp
    then have "False \<and> length e \<noteq> 1 \<or> \<not> False \<and> length e \<noteq> 0" by simp
    from foldl_addElem [OF this ne, of es'] Cons show ?thesis by (simp add: addElem_def)
  qed
qed

lemma path_Clean_dotfree:
  assumes "s \<noteq> []" and "dotfree s"
  shows "path_Clean s = (if hd s = CHR ''/'' then ''/'' else '''') @ joinElems (elems s)"
proof -
  from assms(1) obtain c cs where s: "s = c # cs" by (cases s) auto
  have ne: "\<forall>e \<in> set (elems t). e \<noteq> []" for t using elems_nonempty by blast
  show ?thesis
  proof (cases "c = CHR ''/''")
    case True
    from assms(2) s True have "''.'' \<notin> set (elems cs)" "''..'' \<notin> set (elems cs)"
      by (simp_all add: dotfree_def)
    from clean_loop_dotfree [OF this, of True "''/''" 1] foldl_addElem_start(1) [OF ne, of cs]
    have "clean_loop True ''/'' 1 cs = ''/'' @ joinElems (elems cs)" by simp
    with s True show ?thesis by (simp add: path_Clean_def)
  next
    case False
    from assms(2) s have "''.'' \<notin> set (elems (c # cs))" "''..'' \<notin> set (elems (c # cs))"
      by (simp_all add: dotfree_def)
    from clean_loop_dotfree [OF this, of False "''''" 0] foldl_addElem_start(2) [OF ne, of "c # cs"]
    have out: "clean_loop False '''' 0 (c # cs) = joinElems (elems (c # cs))" by simp
    from False have "joinElems (elems (c # cs)) \<noteq> []" by (simp add: elems_elem)
    with out s False show ?thesis by (simp add: path_Clean_def Let_def del: clean_loop.simps)
  qed
qed

lemma path_Join_two:
  "path_Join [p, a] =
     (if p = '''' \<and> a = '''' then ''''
      else path_Clean (if p = '''' then a else p @ ''/'' @ a))"
  by (simp add: path_Join_def join_step_def)

lemma path_Join_dotfree:
  assumes "dotfree p" and "dotfree a" and "p @ a \<noteq> ''''"
  shows "path_Join [p, a] =
     (if hd (p @ a) = CHR ''/'' then ''/'' else '''') @ joinElems (elems p @ elems a)"
proof (cases "p = ''''")
  case True
  with assms path_Clean_dotfree [of a] show ?thesis by (simp add: path_Join_two)
next
  case False
  from assms(1,2) have "dotfree (p @ ''/'' @ a)" by (simp add: dotfree_def elems_append)
  from path_Clean_dotfree [OF _ this] False show ?thesis
    by (simp add: path_Join_two elems_append)
qed

lemma URL_String_Opaque:
  "Opaque u \<noteq> '''' \<Longrightarrow> URL_String (u\<lparr>Path := x\<rparr>) = URL_String u"
  by (simp add: URL_String_def EscapedFragment_def Let_def)

lemma URL_String_Host:
  assumes "Opaque u = ''''" and "Host u \<noteq> ''''"
  shows "URL_String (u\<lparr>Path := x\<rparr>) =
     (if Scheme u \<noteq> '''' then Scheme u @ '':'' else '''') @ ''//''
       @ (case User u of Some ui \<Rightarrow> Userinfo_String ui @ ''@'' | None \<Rightarrow> '''')
       @ escape (Host u) encodeHost
       @ (if EscapedPath (u\<lparr>Path := x\<rparr>) \<noteq> '''' \<and> hd (EscapedPath (u\<lparr>Path := x\<rparr>)) \<noteq> CHR ''/''
          then ''/'' else '''')
       @ EscapedPath (u\<lparr>Path := x\<rparr>)
       @ (if ForceQuery u \<or> RawQuery u \<noteq> '''' then ''?'' @ RawQuery u else '''')
       @ (if Fragment u \<noteq> '''' then ''#'' @ EscapedFragment u else '''')"
proof -
  have f: "EscapedFragment (u\<lparr>Path := x\<rparr>) = EscapedFragment u"
    by (simp add: EscapedFragment_def)
  from assms show ?thesis
    by (simp add: URL_String_def Let_def f)
qed

lemma EscapedPath_plain:
  "RawPath u = '''' \<Longrightarrow>
     EscapedPath (u\<lparr>Path := x\<rparr>) = (if x = ''*'' then ''*'' else escape x encodePath)"
  by (simp add: EscapedPath_def)

lemma opaque_Parse:
  "url_Parse ''mailto:a@b'' = Inr (emptyURL\<lparr>Scheme := ''mailto'', Opaque := ''a@b''\<rparr>)"
  "url_Parse ''localhost:3000'' = Inr (emptyURL\<lparr>Scheme := ''localhost'', Opaque := ''3000''\<rparr>)"
  by (simp_all add: url_eval)

lemma opaque_String:
  "URL_String (emptyURL\<lparr>Scheme := ''mailto'', Opaque := ''a@b''\<rparr>) = ''mailto:a@b''"
  "URL_String (emptyURL\<lparr>Scheme := ''localhost'', Opaque := ''3000''\<rparr>) = ''localhost:3000''"
  by (simp_all add: URL_String_def emptyURL_def Let_def)

lemma localhost_x_Parse:
  "url_Parse ''http://localhost/x/'' =
     Inr (emptyURL\<lparr>Scheme := ''http'', Host := ''localhost'', Path := ''/x/''\<rparr>)"
  by (simp add: url_eval)

lemma sample_escape: "escape ''/x/a/b'' encodePath = ''/x/a/b''"
  by (simp add: url_eval)

text \<open>
  C8, amended.  For every base string and additional path: when the base does not parse as
  a URL, \<^verbatim>\<open>joinUrlPath\<close> returns the base unchanged.  When it parses, the result is the
  string form of the parsed URL with its path replaced by \<^verbatim>\<open>path.Join\<close> of the old path
  and the additional path.  That joined path is empty when both are empty and otherwise the
  cleaned form of the additional path alone (empty old path) or of the old path, a slash and
  the additional path; when neither holds a \<^verbatim>\<open>.\<close> or \<^verbatim>\<open>..\<close> element, its elements are
  those of the old path followed by those of the additional path, separated by single
  slashes, behind a leading slash exactly when the old path followed by the additional path
  begins with one.  For a URL with a host and no opaque part the returned string is scheme,
  \<^verbatim>\<open>//\<close>, user information, host, the escaped joined path (behind a slash when it does
  not begin with one), query and fragment; the escaped joined path is the escaping of the
  joined path when the parsed URL has no raw path.  Neither the joined path nor its escaped
  form has two separators in a row, and \<^verbatim>\<open>http://localhost\<close> joined with \<^verbatim>\<open>/a/b\<close> is
  \<^verbatim>\<open>http://localhost/a/b\<close>.  For a base that parses with an opaque part (a scheme not
  followed by a slash, as in \<^verbatim>\<open>mailto:a@b\<close> or \<^verbatim>\<open>localhost:3000\<close>) the returned string
  is the string form of the parsed base: the additional path is not appended.
\<close>

theorem joinUrlPath_result:
  "(url_Parse base = Inl err \<longrightarrow> fst (joinUrlPath base additionalPath lg) = base) \<and>
   (url_Parse base = Inr u \<longrightarrow>
      fst (joinUrlPath base additionalPath lg) =
        URL_String (u\<lparr>Path := path_Join [Path u, additionalPath]\<rparr>) \<and>
      (Opaque u \<noteq> '''' \<longrightarrow> fst (joinUrlPath base additionalPath lg) = URL_String u) \<and>
      (Opaque u = '''' \<and> Host u \<noteq> '''' \<longrightarrow>
         fst (joinUrlPath base additionalPath lg) =
           (if Scheme u \<noteq> '''' then Scheme u @ '':'' else '''') @ ''//''
             @ (case User u of Some ui \<Rightarrow> Userinfo_String ui @ ''@'' | None \<Rightarrow> '''')
             @ escape (Host u) encodeHost
             @ (if EscapedPath (u\<lparr>Path := path_Join [Path u, additionalPath]\<rparr>) \<noteq> '''' \<and>
                   hd (EscapedPath (u\<lparr>Path := path_Join [Path u, additionalPath]\<rparr>)) \<noteq> CHR ''/''
                then ''/'' else '''')
             @ EscapedPath (u\<lparr>Path := path_Join [Path u, additionalPath]\<rparr>)
             @ (if ForceQuery u \<or> RawQuery u \<noteq> '''' then ''?'' @ RawQuery u else '''')
             @ (if Fragment u \<noteq> '''' then ''#'' @ EscapedFragment u else ''''))) \<and>
   path_Join [Path u, additionalPath] =
     (if Path u = '''' \<and> additionalPath = '''' then ''''
      else path_Clean (if Path u = '''' then additionalPath
                       else Path u @ ''/'' @ additionalPath)) \<and>
   (dotfree (Path u) \<and> dotfree additionalPath \<and> Path u @ additionalPath \<noteq> '''' \<longrightarrow>
      path_Join [Path u, additionalPath] =
        (if hd (Path u @ additionalPath) = CHR ''/'' then ''/'' else '''')
          @ joinElems (elems (Path u) @ elems additionalPath)) \<and>
   (RawPath u = '''' \<longrightarrow>
      EscapedPath (u\<lparr>Path := path_Join [Path u, additionalPath]\<rparr>) =
        (if path_Join [Path u, additionalPath] = ''*'' then ''*''
         else escape (path_Join [Path u, additionalPath]) encodePath)) \<and>
   \<not> doubleSlash (path_Join [Path u, additionalPath]) \<and>
   \<not> doubleSlash (EscapedPath (u\<lparr>Path := path_Join [Path u, additionalPath]\<rparr>)) \<and>
   fst (joinUrlPath ''http://localhost'' ''/a/b'' lg) = ''http://localhost/a/b''"
proof (intro conjI impI)
  assume "url_Parse base = Inl err"
  then show "fst (joinUrlPath base additionalPath lg) = base"
    by (simp add: joinUrlPath_def)
next
  assume "url_Parse base = Inr u"
  then show "fst (joinUrlPath base additionalPath lg) =
        URL_String (u\<lparr>Path := path_Join [Path u, additionalPath]\<rparr>)"
    by (simp add: joinUrlPath_def)
next
  assume "url_Parse base = Inr u" and "Opaque u \<noteq> ''''"
  then show "fst (joinUrlPath base additionalPath lg) = URL_String u"
    by (simp add: joinUrlPath_def URL_String_Opaque)
next
  assume p: "url_Parse base = Inr u" and "Opaque u = '''' \<and> Host u \<noteq> ''''"
  then have o: "Opaque u = ''''" and h: "Host u \<noteq> ''''" by simp_all
  from p have "fst (joinUrlPath base additionalPath lg) =
        URL_String (u\<lparr>Path := path_Join [Path u, additionalPath]\<rparr>)"
    by (simp add: joinUrlPath_def)
  then show "fst (joinUrlPath base additionalPath lg) =
           (if Scheme u \<noteq> '''' then Scheme u @ '':'' else '''') @ ''//''
             @ (case User u of Some ui \<Rightarrow> Userinfo_String ui @ ''@'' | None \<Rightarrow> '''')
             @ escape (Host u) encodeHost
             @ (if EscapedPath (u\<lparr>Path := path_Join [Path u, additionalPath]\<rparr>) \<noteq> '''' \<and>
                   hd (EscapedPath (u\<lparr>Path := path_Join [Path u, additionalPath]\<rparr>)) \<noteq> CHR ''/''
                then ''/'' else '''')
             @ EscapedPath (u\<lparr>Path := path_Join [Path u, additionalPath]\<rparr>)
             @ (if ForceQuery u \<or> RawQuery u \<noteq> '''' then ''?'' @ RawQuery u else '''')
             @ (if Fragment u \<noteq> '''' then ''#'' @ EscapedFragment u else '''')"
    by (simp only: URL_String_Host [OF o h])
next
  show "path_Join [Path u, additionalPath] =
     (if Path u = '''' \<and> additionalPath = '''' then ''''
      else path_Clean (if Path u = '''' then additionalPath
                       else Path u @ ''/'' @ additionalPath))"
    by (rule path_Join_two)
next
  assume "dotfree (Path u) \<and> dotfree additionalPath \<and> Path u @ additionalPath \<noteq> ''''"
  then have "dotfree (Path u)" and "dotfree additionalPath" and "Path u @ additionalPath \<noteq> ''''"
    by simp_all
  then show "path_Join [Path u, additionalPath] =
        (if hd (Path u @ additionalPath) = CHR ''/'' then ''/'' else '''')
          @ joinElems (elems (Path u) @ elems additionalPath)"
    by (rule path_Join_dotfree)
next
  assume "RawPath u = ''''"
  then show "EscapedPath (u\<lparr>Path := path_Join [Path u, additionalPath]\<rparr>) =
        (if path_Join [Path u, additionalPath] = ''*'' then ''*''
         else escape (path_Join [Path u, additionalPath]) encodePath)"
    by (rule EscapedPath_plain)
next
  show "\<not> doubleSlash (path_Join [Path u, additionalPath])"
    by (rule path_Join_no_doubleSlash)
next
  have "\<not> doubleSlash (Path (u\<lparr>Path := path_Join [Path u, additionalPath]\<rparr>))"
    by (simp add: path_Join_no_doubleSlash)
  then show "\<not> doubleSlash (EscapedPath (u\<lparr>Path := path_Join [Path u, additionalPath]\<rparr>))"
    by (rule EscapedPath_no_doubleSlash)
next
  have "Path (emptyURL\<lparr>Scheme := ''http'', Host := ''localhost''\<rparr>) = ''''"
    by (simp add: emptyURL_def)
  then show "fst (joinUrlPath ''http://localhost'' ''/a/b'' lg) = ''http://localhost/a/b''"
    by (simp add: joinUrlPath_def localhost_Parse sample_Join localhost_String)
qed

text \<open>A base that does not parse; a base whose path \<^verbatim>\<open>/x/\<close> ends in a slash, joined with
  a path that begins with one: the elements \<^verbatim>\<open>x\<close>, \<^verbatim>\<open>a\<close>, \<^verbatim>\<open>b\<close> follow each other
  behind single slashes; and a base with an opaque part.\<close>

theorem joinUrlPath_result_witness:
  "url_Parse ''http://[::1'' =
     Inl (URLError ''parse'' ''http://[::1''
            (ErrorString (''missing '' @ [CHR 0x27] @ '']'' @ [CHR 0x27] @ '' in host''))) \<and>
   fst (joinUrlPath ''http://[::1'' ''/a/b'' []) = ''http://[::1'' \<and>
   url_Parse ''http://localhost/x/'' =
     Inr (emptyURL\<lparr>Scheme := ''http'', Host := ''localhost'', Path := ''/x/''\<rparr>) \<and>
   dotfree ''/x/'' \<and> dotfree ''/a/b'' \<and>
   path_Join [''/x/'', ''/a/b''] = ''/x/a/b'' \<and>
   fst (joinUrlPath ''http://localhost/x/'' ''/a/b'' []) = ''http://localhost/x/a/b'' \<and>
   \<not> doubleSlash ''/x/a/b'' \<and>
   url_Parse ''localhost:3000'' =
     Inr (emptyURL\<lparr>Scheme := ''localhost'', Opaque := ''3000''\<rparr>) \<and>
   fst (joinUrlPath ''localhost:3000'' ''/api/x'' []) = ''localhost:3000''"
proof -
  let ?U = "emptyURL\<lparr>Scheme := ''http'', Host := ''localhost'', Path := ''/x/''\<rparr>"
  let ?O = "emptyURL\<lparr>Scheme := ''localhost'', Opaque := ''3000''\<rparr>"
  note t1 = joinUrlPath_result [where base = "''http://[::1''" and additionalPath = "''/a/b''"
      and lg = "[]"
      and err = "URLError ''parse'' ''http://[::1''
            (ErrorString (''missing '' @ [CHR 0x27] @ '']'' @ [CHR 0x27] @ '' in host''))"]
  note t2 = joinUrlPath_result [where base = "''http://localhost/x/''"
      and additionalPath = "''/a/b''" and lg = "[]" and u = ?U and err = "ErrImagesDone"]
  note t3 = joinUrlPath_result [where base = "''localhost:3000''"
      and additionalPath = "''/api/x''" and lg = "[]" and u = ?O and err = "ErrImagesDone"]
  have f: "Path ?U = ''/x/''" "Opaque ?U = ''''" "Host ?U = ''localhost''" "RawPath ?U = ''''"
    "Scheme ?U = ''http''" "User ?U = None" "ForceQuery ?U = False" "RawQuery ?U = ''''"
    "Fragment ?U = ''''"
    by (simp_all add: emptyURL_def)
  have d: "dotfree ''/x/''" "dotfree ''/a/b''"
    by (simp_all add: dotfree_def elems.simps)
  have a: "fst (joinUrlPath ''http://[::1'' ''/a/b'' []) = ''http://[::1''"
    using t1 bracket_Parse by blast
  have dU: "dotfree (Path ?U) \<and> dotfree ''/a/b'' \<and> Path ?U @ ''/a/b'' \<noteq> []"
    by (simp add: f d)
  from t2 dU have "path_Join [Path ?U, ''/a/b''] =
        (if hd (Path ?U @ ''/a/b'') = CHR ''/'' then ''/'' else '''')
          @ joinElems (elems (Path ?U) @ elems ''/a/b'')"
    by blast
  then have j: "path_Join [''/x/'', ''/a/b''] = ''/x/a/b''"
    by (simp add: f elems.simps)
  from t2 have "\<not> doubleSlash (path_Join [Path ?U, ''/a/b''])" by blast
  then have c: "\<not> doubleSlash ''/x/a/b''" by (simp add: f j)
  from t2 have "EscapedPath (?U\<lparr>Path := path_Join [Path ?U, ''/a/b'']\<rparr>) =
        (if path_Join [Path ?U, ''/a/b''] = ''*'' then ''*''
         else escape (path_Join [Path ?U, ''/a/b'']) encodePath)"
    using f(4) by blast
  then have e: "EscapedPath (emptyURL\<lparr>Scheme := ''http'', Host := ''localhost'',
                                        Path := ''/x/a/b''\<rparr>) = ''/x/a/b''"
    by (simp add: f j sample_escape)
  have h: "escape ''localhost'' encodeHost = ''localhost''"
    by (simp add: url_eval)
  have oh: "Opaque ?U = [] \<and> Host ?U \<noteq> []" by (simp add: f)
  from t2 localhost_x_Parse oh
  have "fst (joinUrlPath ''http://localhost/x/'' ''/a/b'' []) =
           (if Scheme ?U \<noteq> '''' then Scheme ?U @ '':'' else '''') @ ''//''
             @ (case User ?U of Some ui \<Rightarrow> Userinfo_String ui @ ''@'' | None \<Rightarrow> '''')
             @ escape (Host ?U) encodeHost
             @ (if EscapedPath (?U\<lparr>Path := path_Join [Path ?U, ''/a/b'']\<rparr>) \<noteq> '''' \<and>
                   hd (EscapedPath (?U\<lparr>Path := path_Join [Path ?U, ''/a/b'']\<rparr>)) \<noteq> CHR ''/''
                then ''/'' else '''')
             @ EscapedPath (?U\<lparr>Path := path_Join [Path ?U, ''/a/b'']\<rparr>)
             @ (if ForceQuery ?U \<or> RawQuery ?U \<noteq> '''' then ''?'' @ RawQuery ?U else '''')
             @ (if Fragment ?U \<noteq> '''' then ''#'' @ EscapedFragment ?U else '''')"
    by blast
  then have b: "fst (joinUrlPath ''http://localhost/x/'' ''/a/b'' []) = ''http://localhost/x/a/b''"
    by (simp add: f j e h)
  have "Opaque ?O \<noteq> ''''" by (simp add: emptyURL_def)
  with t3 opaque_Parse(2)
  have "fst (joinUrlPath ''localhost:3000'' ''/api/x'' []) = URL_String ?O"
    by blast
  then have o: "fst (joinUrlPath ''localhost:3000'' ''/api/x'' []) = ''localhost:3000''"
    by (simp add: opaque_String)
  from bracket_Parse localhost_x_Parse d j b c opaque_Parse(2) a o show ?thesis by blast
qed

text \<open>
  C8 as the specification words it does not hold: a base that parses with an opaque part
  comes back as it was, without the additional path.  \<^verbatim>\<open>mailto:a@b\<close> joined with
  \<^verbatim>\<open>/x\<close> is \<^verbatim>\<open>mailto:a@b\<close>, and \<^verbatim>\<open>localhost:3000\<close>, which \<^verbatim>\<open>url.Parse\<close> accepts
  with the scheme \<^verbatim>\<open>localhost\<close>, joined with \<^verbatim>\<open>/api/x\<close> is \<^verbatim>\<open>localhost:3000\<close>: both
  parse, and in neither result is the segment appended.
\<close>

theorem joinUrlPath_result_counterexample:
  "url_Parse ''mailto:a@b'' = Inr (emptyURL\<lparr>Scheme := ''mailto'', Opaque := ''a@b''\<rparr>) \<and>
   joinUrlPath ''mailto:a@b'' ''/x'' [] = (''mailto:a@b'', []) \<and>
   url_Parse ''localhost:3000'' = Inr (emptyURL\<lparr>Scheme := ''localhost'', Opaque := ''3000''\<rparr>) \<and>
   joinUrlPath ''localhost:3000'' ''/api/x'' [] = (''localhost:3000'', [])"
  by (simp add: joinUrlPath_def opaque_Parse URL_String_def emptyURL_def Let_def)

end
